theory Spec2Isabelle
  imports Main "HOL-Library.AList" "HOL-Library.Monad_Syntax"
begin

section \<open>Board engine of the Gomoku server (server/index.js)\<close>

text \<open>
  The server keeps a board as an array of rows of numbers: 0 is an empty cell,
  1 black, 2 white, 3 the third player. JavaScript numbers that carry coordinates,
  counters and thresholds are modelled as \<open>int\<close>; an array read outside the array
  yields \<open>undefined\<close>, modelled as \<open>None\<close>; reading a property of \<open>undefined\<close>
  throws a \<open>TypeError\<close>. The functions below declare default values for \<open>size\<close>,
  \<open>winCondition\<close> and \<open>playerCount\<close>; every call in the server passes the argument,
  so the defaults play no part.
\<close>

type_synonym board = "int list list"

datatype error = TypeError

text \<open>\<^verbatim>\<open>Array.from({ length: size }, () => Array(size).fill(0))\<close>\<close>

definition createEmptyBoard :: "nat \<Rightarrow> board" where
  "createEmptyBoard sz = replicate sz (replicate sz 0)"

text \<open>\<^verbatim>\<open>x >= 0 && x < size && y >= 0 && y < size\<close>\<close>

definition inBounds :: "int \<Rightarrow> int \<Rightarrow> int \<Rightarrow> bool" where
  "inBounds x y sz = (x \<ge> 0 \<and> x < sz \<and> y \<ge> 0 \<and> y < sz)"

text \<open>\<^verbatim>\<open>arr[i]\<close> for an integer index: \<open>undefined\<close> outside the array.\<close>

definition js_index :: "'a list \<Rightarrow> int \<Rightarrow> 'a option" where
  "js_index arr i = (if 0 \<le> i \<and> i < int (length arr) then Some (arr ! nat i) else None)"

text \<open>\<^verbatim>\<open>board[y][x]\<close>: throws when \<open>board[y]\<close> is \<open>undefined\<close>.\<close>

definition cell :: "board \<Rightarrow> int \<Rightarrow> int \<Rightarrow> error + int option" where
  "cell board x y =
     (case js_index board y of
        None \<Rightarrow> Inl TypeError
      | Some row \<Rightarrow> Inr (js_index row x))"

text \<open>
  The two \<^verbatim>\<open>while\<close> loops of \<open>checkWin\<close>. The first walks from \<open>(x + dx, y + dy)\<close>
  with \<^verbatim>\<open>nx += dx; ny += dy\<close>, the second from \<open>(x - dx, y - dy)\<close> with
  \<^verbatim>\<open>nx -= dx; ny -= dy\<close>; both increment \<open>count\<close>. Nothing in the loop itself bounds
  the number of iterations for an arbitrary step, so a loop that never leaves is the
  value \<open>None\<close>.
\<close>

partial_function (option) count_forward ::
  "board \<Rightarrow> int option \<Rightarrow> int \<Rightarrow> int \<Rightarrow> int \<Rightarrow> int \<Rightarrow> int \<Rightarrow> int option" where
  "count_forward board target dx dy nx ny count =
     (if inBounds nx ny (int (length board)) \<and> cell board nx ny = Inr target
      then count_forward board target dx dy (nx + dx) (ny + dy) (count + 1)
      else Some count)"

partial_function (option) count_backward ::
  "board \<Rightarrow> int option \<Rightarrow> int \<Rightarrow> int \<Rightarrow> int \<Rightarrow> int \<Rightarrow> int \<Rightarrow> int option" where
  "count_backward board target dx dy nx ny count =
     (if inBounds nx ny (int (length board)) \<and> cell board nx ny = Inr target
      then count_backward board target dx dy (nx - dx) (ny - dy) (count + 1)
      else Some count)"

text \<open>The four directions, in the order of the source.\<close>

definition dirs :: "(int \<times> int) list" where
  "dirs = [(1, 0), (0, 1), (1, 1), (1, -1)]"

text \<open>The \<^verbatim>\<open>for (const [dx, dy] of dirs)\<close> loop: the first direction that reaches
  \<open>winCondition\<close> returns true.\<close>

fun check_dirs :: "board \<Rightarrow> int option \<Rightarrow> int \<Rightarrow> int \<Rightarrow> int \<Rightarrow> (int \<times> int) list \<Rightarrow> bool option" where
  "check_dirs board target x y winCondition [] = Some False"
| "check_dirs board target x y winCondition ((dx, dy) # ds) =
     do {
       count1 \<leftarrow> count_forward board target dx dy (x + dx) (y + dy) 1;
       count2 \<leftarrow> count_backward board target dx dy (x - dx) (y - dy) count1;
       if count2 \<ge> winCondition then Some True
       else check_dirs board target x y winCondition ds
     }"

definition checkWin :: "board \<Rightarrow> int \<Rightarrow> int \<Rightarrow> int \<Rightarrow> (error + bool) option" where
  "checkWin board x y winCondition =
     (case cell board x y of
        Inl e \<Rightarrow> Some (Inl e)
      | Inr target \<Rightarrow>
          if target = Some 0 then Some (Inr False)
          else map_option Inr (check_dirs board target x y winCondition dirs))"

text \<open>\<open>checkDraw\<close>: the inner loop over one row, then the outer loop over the rows.\<close>

fun row_full :: "int list \<Rightarrow> bool" where
  "row_full [] = True"
| "row_full (c # cs) = (if c = 0 then False else row_full cs)"

fun checkDraw :: "board \<Rightarrow> bool" where
  "checkDraw [] = True"
| "checkDraw (row # rows) = (if \<not> row_full row then False else checkDraw rows)"

text \<open>\<^verbatim>\<open>getOppositeTurn(turn, playerCount)\<close>\<close>

definition getOppositeTurn :: "int \<Rightarrow> int \<Rightarrow> int" where
  "getOppositeTurn t pc =
     (if pc = 2 then (if t = 1 then 2 else 1)
      else (if t = 1 then 2 else if t = 2 then 3 else 1))"

text \<open>\<^verbatim>\<open>board[y][x] = playerNum\<close>, used by the server only on a cell it has just read.\<close>

definition set_cell :: "board \<Rightarrow> int \<Rightarrow> int \<Rightarrow> int \<Rightarrow> board" where
  "set_cell board x y v = board[nat y := (board ! nat y)[nat x := v]]"

subsection \<open>What the specification calls a run\<close>

text \<open>
  The runs are worded here without reference to the direction table of \<open>checkWin\<close>.
  A cell \<open>(cx, cy)\<close> continues the run through \<open>(x, y)\<close> when it lies on the board and
  holds the value found at \<open>(x, y)\<close>. A run reaches \<open>p\<close> cells in the positive and \<open>n\<close>
  cells in the negative sense from \<open>(x, y)\<close>, so its length is \<open>p + n + 1\<close>, with
  \<open>(x, y)\<close> itself counted once. There are four lines through a cell: the horizontal
  (\<open>x\<close> varies), the vertical (\<open>y\<close> varies), the diagonal (\<open>x\<close> and \<open>y\<close> grow together)
  and the anti-diagonal (\<open>x\<close> grows as \<open>y\<close> falls). A run wins when its length reaches
  the win condition; nothing caps it.
\<close>

definition same_as :: "board \<Rightarrow> int \<Rightarrow> int \<Rightarrow> int \<Rightarrow> int \<Rightarrow> bool" where
  "same_as board x y cx cy =
     (inBounds cx cy (int (length board)) \<and> cell board cx cy = cell board x y)"

definition horizontal_run :: "board \<Rightarrow> int \<Rightarrow> int \<Rightarrow> nat \<Rightarrow> nat \<Rightarrow> bool" where
  "horizontal_run board x y p n =
     (\<forall>k. - int n \<le> k \<and> k \<le> int p \<longrightarrow> same_as board x y (x + k) y)"

definition vertical_run :: "board \<Rightarrow> int \<Rightarrow> int \<Rightarrow> nat \<Rightarrow> nat \<Rightarrow> bool" where
  "vertical_run board x y p n =
     (\<forall>k. - int n \<le> k \<and> k \<le> int p \<longrightarrow> same_as board x y x (y + k))"

definition diagonal_run :: "board \<Rightarrow> int \<Rightarrow> int \<Rightarrow> nat \<Rightarrow> nat \<Rightarrow> bool" where
  "diagonal_run board x y p n =
     (\<forall>k. - int n \<le> k \<and> k \<le> int p \<longrightarrow> same_as board x y (x + k) (y + k))"

definition antidiagonal_run :: "board \<Rightarrow> int \<Rightarrow> int \<Rightarrow> nat \<Rightarrow> nat \<Rightarrow> bool" where
  "antidiagonal_run board x y p n =
     (\<forall>k. - int n \<le> k \<and> k \<le> int p \<longrightarrow> same_as board x y (x + k) (y - k))"

definition winning_run :: "board \<Rightarrow> int \<Rightarrow> int \<Rightarrow> int \<Rightarrow> bool" where
  "winning_run board x y winCondition =
     (\<exists>p n. (horizontal_run board x y p n \<or> vertical_run board x y p n \<or>
              diagonal_run board x y p n \<or> antidiagonal_run board x y p n) \<and>
             int p + int n + 1 \<ge> winCondition)"


section \<open>Rooms, connections and the event handlers\<close>

text \<open>
  A socket id and a room id are strings. A seat of \<open>room.players\<close> holds a socket id or
  \<open>null\<close> (the third seat may also be \<open>undefined\<close>; the handlers only test a seat with
  \<^verbatim>\<open>!\<close>, \<^verbatim>\<open>!!\<close> and \<^verbatim>\<open>=== socket.id\<close>, which do not tell \<open>null\<close> from \<open>undefined\<close>),
  so a seat is a \<open>socket_id option\<close>. Socket.IO ids are never the empty string, so
  \<^verbatim>\<open>!room.players.black\<close> is \<open>black = None\<close>.
\<close>

type_synonym socket_id = string
type_synonym room_id = string

text \<open>The strings \<^verbatim>\<open>"black"\<close>, \<^verbatim>\<open>"white"\<close>, \<^verbatim>\<open>"green"\<close> and \<^verbatim>\<open>"spectator"\<close>.\<close>

datatype side = Black | White | Green | Spectator

record settings =
  playerCount :: int
  winCondition :: int
  boardSize :: nat

record players =
  black :: "socket_id option"
  white :: "socket_id option"
  third :: "socket_id option"

record room =
  players :: players
  board :: board
  turn :: int
  settings :: settings

text \<open>\<open>socket.data\<close>: both fields are \<open>undefined\<close> until the socket joins a room.\<close>

record socket_data =
  data_roomId :: "room_id option"
  data_side :: "side option"

text \<open>
  The state of the process: the \<open>rooms\<close> map (a JavaScript \<open>Map\<close>, kept as an
  association list in insertion order, written with \<open>AList.update\<close> and
  \<open>AList.delete\<close>), the data of every socket, the connected sockets, and the members
  of each Socket.IO room (\<open>io.sockets.adapter.rooms\<close>).
\<close>

record server =
  rooms :: "(room_id \<times> room) list"
  sockets :: "socket_id \<Rightarrow> socket_data"
  connected :: "socket_id set"
  adapter :: "room_id \<Rightarrow> socket_id set"

text \<open>The payload of \<open>room_state\<close>; a key that is absent or \<open>undefined\<close> is \<open>None\<close>.\<close>

record room_state =
  state_black :: bool
  state_white :: bool
  state_third :: "bool option"
  state_turn :: int
  state_settings :: "settings option"

datatype payload =
    Joined room_id side int board settings
  | Room_state room_state
  | Piece_placed int int side
  | Game_over "side option" "bool option"
  | Turn_changed side
  | Reset_done board side

text \<open>\<^verbatim>\<open>socket.emit(...)\<close> and \<^verbatim>\<open>io.to(roomId).emit(...)\<close>.\<close>

datatype emit = To_socket socket_id payload | To_room room_id payload

definition init_server :: server where
  "init_server =
     \<lparr>rooms = [],
      sockets = (\<lambda>_. \<lparr>data_roomId = None, data_side = None\<rparr>),
      connected = {},
      adapter = (\<lambda>_. {})\<rparr>"

text \<open>\<open>rooms.has(roomId)\<close>; \<open>rooms.get(roomId)\<close> is \<open>map_of\<close>.\<close>

definition has :: "(room_id \<times> room) list \<Rightarrow> room_id \<Rightarrow> bool" where
  "has rs roomId = (map_of rs roomId \<noteq> None)"

text \<open>The \<open>room_state\<close> object that join, place, reset and disconnect broadcast.\<close>

definition room_view :: "room \<Rightarrow> room_state" where
  "room_view room =
     \<lparr>state_black = (black (players room) \<noteq> None),
      state_white = (white (players room) \<noteq> None),
      state_third = (if playerCount (settings room) = 3
                     then Some (third (players room) \<noteq> None) else None),
      state_turn = turn room,
      state_settings = Some (settings room)\<rparr>"

subsection \<open>POST /api/create-room\<close>

text \<open>
  \<open>nanoid\<close> draws six characters from a fixed alphabet. The values it returns during
  one request are given as a sequence: \<open>nanoid 0\<close> is the first draw. The loop
  \<^verbatim>\<open>while (rooms.has(roomId)) roomId = nanoid()\<close> ends only when a draw is not a live
  code.
\<close>

definition alphabet :: string where
  "alphabet = ''ABCDEFGHJKLMNPQRSTUVWXYZ23456789''"

definition nanoid_code :: "room_id \<Rightarrow> bool" where
  "nanoid_code c = (length c = 6 \<and> set c \<subseteq> set alphabet)"

partial_function (option) retry_nanoid ::
  "(nat \<Rightarrow> room_id) \<Rightarrow> (room_id \<times> room) list \<Rightarrow> nat \<Rightarrow> room_id \<Rightarrow> room_id option" where
  "retry_nanoid nanoid rs i roomId =
     (if has rs roomId then retry_nanoid nanoid rs (Suc i) (nanoid i) else Some roomId)"

text \<open>\<open>req.body\<close>: a missing field takes its default (2, 5, 15).\<close>

record body =
  body_playerCount :: "int option"
  body_winCondition :: "int option"
  body_boardSize :: "nat option"

definition create_room :: "server \<Rightarrow> (nat \<Rightarrow> room_id) \<Rightarrow> body \<Rightarrow> (room_id \<times> server) option" where
  "create_room s nanoid b =
     do {
       roomId \<leftarrow> retry_nanoid nanoid (rooms s) 1 (nanoid 0);
       let pc = (case body_playerCount b of None \<Rightarrow> 2 | Some v \<Rightarrow> v);
           wc = (case body_winCondition b of None \<Rightarrow> 5 | Some v \<Rightarrow> v);
           bs = (case body_boardSize b of None \<Rightarrow> 15 | Some v \<Rightarrow> v)
       in Some (roomId,
            s\<lparr>rooms := AList.update roomId
                 \<lparr>players = \<lparr>black = None, white = None, third = None\<rparr>,
                  board = createEmptyBoard bs,
                  turn = 1,
                  settings = \<lparr>playerCount = pc, winCondition = wc, boardSize = bs\<rparr>\<rparr>
                 (rooms s)\<rparr>)
     }"

subsection \<open>connection, join\_room\<close>

definition connect :: "server \<Rightarrow> socket_id \<Rightarrow> server" where
  "connect s sid =
     s\<lparr>sockets := (sockets s)(sid := \<lparr>data_roomId = None, data_side = None\<rparr>),
       connected := insert sid (connected s)\<rparr>"

text \<open>The room a join to an unknown code creates.\<close>

definition default_room :: room where
  "default_room =
     \<lparr>players = \<lparr>black = None, white = None, third = None\<rparr>,
      board = createEmptyBoard 15,
      turn = 1,
      settings = \<lparr>playerCount = 2, winCondition = 5, boardSize = 15\<rparr>\<rparr>"

text \<open>The \<^verbatim>\<open>if / else if\<close> chain that picks the side of a joining socket.\<close>

definition assign_side :: "room \<Rightarrow> socket_id \<Rightarrow> room \<times> side" where
  "assign_side room sid =
     (if black (players room) = None
      then (room\<lparr>players := (players room)\<lparr>black := Some sid\<rparr>\<rparr>, Black)
      else if white (players room) = None
      then (room\<lparr>players := (players room)\<lparr>white := Some sid\<rparr>\<rparr>, White)
      else if playerCount (settings room) = 3 \<and> third (players room) = None
      then (room\<lparr>players := (players room)\<lparr>third := Some sid\<rparr>\<rparr>, Green)
      else (room, Spectator))"

definition join_room :: "server \<Rightarrow> socket_id \<Rightarrow> room_id \<Rightarrow> server \<times> emit list" where
  "join_room s sid roomId =
     (if roomId = [] then (s, [])
      else
        let rs = (if \<not> has (rooms s) roomId
                  then AList.update roomId default_room (rooms s) else rooms s)
        in (case map_of rs roomId of
              None \<Rightarrow> (s, [])
            | Some room \<Rightarrow>
                (case assign_side room sid of
                   (room', sd) \<Rightarrow>
                     (s\<lparr>rooms := AList.update roomId room' rs,
                        adapter := (adapter s)(roomId := insert sid (adapter s roomId)),
                        sockets := (sockets s)(sid := \<lparr>data_roomId = Some roomId, data_side = Some sd\<rparr>)\<rparr>,
                      [To_socket sid (Joined roomId sd (turn room') (board room') (settings room')),
                       To_room roomId (Room_state (room_view room'))]))))"

subsection \<open>get\_room\_state\<close>

definition get_room_state :: "server \<Rightarrow> socket_id \<Rightarrow> room_id \<Rightarrow> server \<times> emit list" where
  "get_room_state s sid roomId =
     (case map_of (rooms s) roomId of
        None \<Rightarrow> (s, [])
      | Some room \<Rightarrow>
          (s, [To_socket sid (Room_state
                 \<lparr>state_black = (black (players room) \<noteq> None),
                  state_white = (white (players room) \<noteq> None),
                  state_third = None,
                  state_turn = turn room,
                  state_settings = None\<rparr>)]))"

subsection \<open>place\_piece\<close>

text \<open>\<^verbatim>\<open>side === "black" ? 1 : side === "white" ? 2 : 3\<close>\<close>

definition playerNum :: "side \<Rightarrow> int" where
  "playerNum sd = (if sd = Black then 1 else if sd = White then 2 else 3)"

text \<open>\<^verbatim>\<open>room.turn === 1 ? "black" : room.turn === 2 ? "white" : "green"\<close>\<close>

definition turn_name :: "int \<Rightarrow> side" where
  "turn_name t = (if t = 1 then Black else if t = 2 then White else Green)"

text \<open>
  The checks come in the order of the source: the room exists, the socket is bound to
  a playing side, it is that side's turn, the coordinates are in bounds, the cell is
  empty. Every \<^verbatim>\<open>return\<close> before the write leaves the state as it is and emits
  nothing. The result is \<open>None\<close> if the handler does not return, \<open>Inl\<close> if it throws.
  The coordinates of the event are integers.
\<close>

definition place_piece ::
  "server \<Rightarrow> socket_id \<Rightarrow> room_id \<Rightarrow> int \<Rightarrow> int \<Rightarrow> (error + server \<times> emit list) option" where
  "place_piece s sid roomId x y =
     (case map_of (rooms s) roomId of
        None \<Rightarrow> Some (Inr (s, []))
      | Some room \<Rightarrow>
          (case data_side (sockets s sid) of
             None \<Rightarrow> Some (Inr (s, []))
           | Some sd \<Rightarrow>
               if sd \<noteq> Black \<and> sd \<noteq> White \<and> sd \<noteq> Green then Some (Inr (s, []))
               else if turn room \<noteq> playerNum sd then Some (Inr (s, []))
               else if \<not> inBounds x y (int (boardSize (settings room))) then Some (Inr (s, []))
               else
                 (case cell (board room) x y of
                    Inl e \<Rightarrow> Some (Inl e)
                  | Inr c \<Rightarrow>
                      if c \<noteq> Some 0 then Some (Inr (s, []))
                      else
                        let room1 = room\<lparr>board := set_cell (board room) x y (playerNum sd)\<rparr>
                        in (case checkWin (board room1) x y (winCondition (settings room1)) of
                              None \<Rightarrow> None
                            | Some (Inl e) \<Rightarrow> Some (Inl e)
                            | Some (Inr won) \<Rightarrow>
                                if won
                                then Some (Inr (s\<lparr>rooms := AList.update roomId room1 (rooms s)\<rparr>,
                                       [To_room roomId (Piece_placed x y sd),
                                        To_room roomId (Game_over (Some sd) None)]))
                                else if checkDraw (board room1)
                                then Some (Inr (s\<lparr>rooms := AList.update roomId room1 (rooms s)\<rparr>,
                                       [To_room roomId (Piece_placed x y sd),
                                        To_room roomId (Game_over None (Some True))]))
                                else
                                  let room2 = room1\<lparr>turn := getOppositeTurn (turn room1)
                                                (playerCount (settings room1))\<rparr>
                                  in Some (Inr (s\<lparr>rooms := AList.update roomId room2 (rooms s)\<rparr>,
                                       [To_room roomId (Piece_placed x y sd),
                                        To_room roomId (Turn_changed (turn_name (turn room2))),
                                        To_room roomId (Room_state (room_view room2))]))))))"

subsection \<open>reset\_game\<close>

definition reset_game :: "server \<Rightarrow> socket_id \<Rightarrow> room_id \<Rightarrow> server \<times> emit list" where
  "reset_game s sid roomId =
     (case map_of (rooms s) roomId of
        None \<Rightarrow> (s, [])
      | Some room \<Rightarrow>
          let room' = room\<lparr>board := createEmptyBoard (boardSize (settings room)), turn := 1\<rparr>
          in (s\<lparr>rooms := AList.update roomId room' (rooms s)\<rparr>,
              [To_room roomId (Reset_done (board room') Black),
               To_room roomId (Room_state (room_view room'))]))"

subsection \<open>disconnect\<close>

text \<open>
  When Socket.IO fires \<open>disconnect\<close> the socket has already left its Socket.IO rooms,
  so the adapter no longer lists it. The handler frees the seats the socket holds in
  the room of \<open>socket.data.roomId\<close> and deletes that room when no socket is left in it.
\<close>

definition free_seats :: "players \<Rightarrow> socket_id \<Rightarrow> players" where
  "free_seats p sid =
     (let p1 = (if black p = Some sid then p\<lparr>black := None\<rparr> else p);
          p2 = (if white p1 = Some sid then p1\<lparr>white := None\<rparr> else p1)
      in (if third p2 = Some sid then p2\<lparr>third := None\<rparr> else p2))"

definition disconnect :: "server \<Rightarrow> socket_id \<Rightarrow> server \<times> emit list" where
  "disconnect s sid =
     (let s0 = s\<lparr>connected := connected s - {sid},
                 adapter := (\<lambda>r. adapter s r - {sid})\<rparr>
      in (case data_roomId (sockets s sid) of
            None \<Rightarrow> (s0, [])
          | Some roomId \<Rightarrow>
              (case map_of (rooms s) roomId of
                 None \<Rightarrow> (s0, [])
               | Some room \<Rightarrow>
                   let room' = room\<lparr>players := free_seats (players room) sid\<rparr>;
                       rs = AList.update roomId room' (rooms s);
                       out = [To_room roomId (Room_state (room_view room'))]
                   in if adapter s0 roomId = {}
                      then (s0\<lparr>rooms := AList.delete roomId rs\<rparr>, out)
                      else (s0\<lparr>rooms := rs\<rparr>, out))))"

subsection \<open>The events the server handles, and the states it can reach\<close>

datatype event =
    Create_room "nat \<Rightarrow> room_id" body
  | Connect socket_id
  | Join_room socket_id room_id
  | Get_room_state socket_id room_id
  | Place_piece socket_id room_id int int
  | Reset_game socket_id room_id
  | Disconnect socket_id

text \<open>
  One event, handled to completion. \<open>None\<close>: the event cannot occur (a socket event
  of a socket that is not connected, a connection under an id in use) or its handler
  does not return normally.
\<close>

fun step :: "server \<Rightarrow> event \<Rightarrow> (server \<times> emit list) option" where
  "step s (Create_room nanoid b) =
     map_option (\<lambda>(roomId, s'). (s', [])) (create_room s nanoid b)"
| "step s (Connect sid) =
     (if sid \<in> connected s then None else Some (connect s sid, []))"
| "step s (Join_room sid roomId) =
     (if sid \<in> connected s then Some (join_room s sid roomId) else None)"
| "step s (Get_room_state sid roomId) =
     (if sid \<in> connected s then Some (get_room_state s sid roomId) else None)"
| "step s (Place_piece sid roomId x y) =
     (if sid \<in> connected s
      then (case place_piece s sid roomId x y of Some (Inr r) \<Rightarrow> Some r | _ \<Rightarrow> None)
      else None)"
| "step s (Reset_game sid roomId) =
     (if sid \<in> connected s then Some (reset_game s sid roomId) else None)"
| "step s (Disconnect sid) =
     (if sid \<in> connected s then Some (disconnect s sid) else None)"

text \<open>What the environment can send: every draw of \<open>nanoid\<close> is a code over its alphabet.\<close>

fun possible :: "event \<Rightarrow> bool" where
  "possible (Create_room nanoid b) = (\<forall>i. nanoid_code (nanoid i))"
| "possible e = True"

inductive reachable :: "server \<Rightarrow> bool" where
  start: "reachable init_server"
| after: "reachable s \<Longrightarrow> possible e \<Longrightarrow> step s e = Some (s', out) \<Longrightarrow> reachable s'"

text \<open>A sequence of events, for building concrete states; an event that cannot occur
  is skipped.\<close>

fun run :: "server \<Rightarrow> event list \<Rightarrow> server" where
  "run s [] = s"
| "run s (e # es) = (case step s e of None \<Rightarrow> run s es | Some (s', out) \<Rightarrow> run s' es)"

section \<open>Notions used in the statements and proofs\<close>

declare count_forward.simps [code] count_backward.simps [code] retry_nanoid.simps [code]

text \<open>The loop condition of \<open>checkWin\<close>, and the number of iterations a loop makes
  when it walks from \<open>(x, y)\<close> in steps of \<open>(dx, dy)\<close>.\<close>

definition matching :: "board \<Rightarrow> int option \<Rightarrow> int \<Rightarrow> int \<Rightarrow> bool" where
  "matching b target px py =
     (inBounds px py (int (length b)) \<and> cell b px py = Inr target)"

definition reach :: "board \<Rightarrow> int option \<Rightarrow> int \<Rightarrow> int \<Rightarrow> int \<Rightarrow> int \<Rightarrow> nat" where
  "reach b target x y dx dy =
     (LEAST j. \<not> matching b target (x + (int j + 1) * dx) (y + (int j + 1) * dy))"

text \<open>A stretch of matching cells along an arbitrary step \<open>d\<close>, for the proofs about
  the loops.\<close>

definition run_through :: "board \<Rightarrow> int \<Rightarrow> int \<Rightarrow> int \<times> int \<Rightarrow> nat \<Rightarrow> nat \<Rightarrow> bool" where
  "run_through b x y d p n =
     (\<forall>k. - int n \<le> k \<and> k \<le> int p \<longrightarrow>
        inBounds (x + k * fst d) (y + k * snd d) (int (length b)) \<and>
        cell b (x + k * fst d) (y + k * snd d) = cell b x y)"

text \<open>A room whose board has the dimensions its settings give, as every room the
  server builds has.\<close>

definition wf_room :: "room \<Rightarrow> bool" where
  "wf_room room =
     (length (board room) = boardSize (settings room) \<and>
      (\<forall>row \<in> set (board room). length row = boardSize (settings room)))"

text \<open>The three conditions of a placement: in bounds, on an empty cell, by the seat
  whose turn it is.\<close>

definition legal_move :: "room \<Rightarrow> side \<Rightarrow> int \<Rightarrow> int \<Rightarrow> bool" where
  "legal_move room sd x y =
     (inBounds x y (int (boardSize (settings room))) \<and>
      cell (board room) x y = Inr (Some 0) \<and>
      playerNum sd = turn room)"

text \<open>The turn of a room names a seat, and only a seat the room has.\<close>

definition turn_ok :: "room \<Rightarrow> bool" where
  "turn_ok room =
     ((turn room = 1 \<or> turn room = 2 \<or> turn room = 3) \<and>
      (playerCount (settings room) = 2 \<longrightarrow> turn room \<noteq> 3))"

text \<open>What holds of the \<open>rooms\<close> map in every state: no code is listed twice, and
  every room is well formed with a turn that names one of its seats.\<close>

definition rooms_inv :: "(room_id \<times> room) list \<Rightarrow> bool" where
  "rooms_inv rs =
     (distinct (map fst rs) \<and> (\<forall>kr \<in> set rs. wf_room (snd kr) \<and> turn_ok (snd kr)))"

text \<open>
  The seat assignment as the specification words it: the playing seats in their fixed
  priority order, the third only in a room of three; the first of them that nobody
  holds, and \<open>Spectator\<close> when all are held. The room a join looks at is the one
  stored under the code, or the default room when the code is unknown.
\<close>

definition playing_seats :: "int \<Rightarrow> side list" where
  "playing_seats pc = (if pc = 3 then [Black, White, Green] else [Black, White])"

fun occupant :: "players \<Rightarrow> side \<Rightarrow> socket_id option" where
  "occupant p Black = black p"
| "occupant p White = white p"
| "occupant p Green = third p"
| "occupant p Spectator = None"

definition first_free_seat :: "int \<Rightarrow> players \<Rightarrow> side" where
  "first_free_seat pc p =
     (case find (\<lambda>sd. occupant p sd = None) (playing_seats pc) of
        None \<Rightarrow> Spectator
      | Some sd \<Rightarrow> sd)"

definition joined_room :: "server \<Rightarrow> room_id \<Rightarrow> room" where
  "joined_room s roomId =
     (case map_of (rooms s) roomId of None \<Rightarrow> default_room | Some r \<Rightarrow> r)"

text \<open>The room after a legal placement at \<open>(x, y)\<close> by a side, before the turn moves on.\<close>

definition placed :: "room \<Rightarrow> side \<Rightarrow> int \<Rightarrow> int \<Rightarrow> room" where
  "placed room sd x y = room\<lparr>board := set_cell (board room) x y (playerNum sd)\<rparr>"


subsection \<open>Example data\<close>

text \<open>States built by sequences of events from the empty server: a game on a
  15 by 15 board in which black holds four cells of row 0 and white four cells of
  row 1, with black to move; a game of three players with the third to move; and two
  games on a 3 by 3 board with three in a row to win, one move from a full board.
  Next to each, the room the events lead to.\<close>

definition demo_board :: board where
  "demo_board = [[1, 1, 1], [2, 2, 0], [0, 0, 0]]"

text \<open>Three further boards with three in a row along one line only: the vertical
  through \<open>(0, 1)\<close>, the diagonal through \<open>(1, 1)\<close>, the anti-diagonal through
  \<open>(1, 1)\<close>.\<close>

definition vertical_board :: board where
  "vertical_board = [[1, 2, 0], [1, 2, 0], [1, 0, 0]]"

definition diagonal_board :: board where
  "diagonal_board = [[1, 2, 0], [2, 1, 0], [0, 0, 1]]"

definition antidiagonal_board :: board where
  "antidiagonal_board = [[0, 2, 1], [2, 1, 0], [1, 0, 0]]"

definition game_board :: board where
  "game_board =
     ([1, 1, 1, 1] @ replicate 11 0) # ([2, 2, 2, 2] @ replicate 11 0) # replicate 13 (replicate 15 0)"

definition game_room :: room where
  "game_room =
     \<lparr>players = \<lparr>black = Some ''sockA'', white = Some ''sockB'', third = None\<rparr>,
      board = game_board,
      turn = 1,
      settings = \<lparr>playerCount = 2, winCondition = 5, boardSize = 15\<rparr>\<rparr>"

definition game_events :: "event list" where
  "game_events =
     [Create_room (\<lambda>_. ''GAME42'')
        \<lparr>body_playerCount = None, body_winCondition = None, body_boardSize = None\<rparr>,
      Connect ''sockA'', Connect ''sockB'',
      Join_room ''sockA'' ''GAME42'', Join_room ''sockB'' ''GAME42'',
      Place_piece ''sockA'' ''GAME42'' 0 0, Place_piece ''sockB'' ''GAME42'' 0 1,
      Place_piece ''sockA'' ''GAME42'' 1 0, Place_piece ''sockB'' ''GAME42'' 1 1,
      Place_piece ''sockA'' ''GAME42'' 2 0, Place_piece ''sockB'' ''GAME42'' 2 1,
      Place_piece ''sockA'' ''GAME42'' 3 0, Place_piece ''sockB'' ''GAME42'' 3 1]"

definition played_game :: server where
  "played_game = run init_server game_events"

definition won_room :: room where
  "won_room = game_room\<lparr>board := set_cell game_board 4 0 1\<rparr>"

definition won_game :: server where
  "won_game = played_game\<lparr>rooms := [(''GAME42'', won_room)]\<rparr>"

definition retry_draws :: "nat \<Rightarrow> room_id" where
  "retry_draws i = (if i = 0 then ''GAME42'' else ''GAME43'')"

definition empty_body :: body where
  "empty_body = \<lparr>body_playerCount = None, body_winCondition = None, body_boardSize = None\<rparr>"

definition trio_events :: "event list" where
  "trio_events =
     [Create_room (\<lambda>_. ''TRE333'')
        \<lparr>body_playerCount = Some 3, body_winCondition = None, body_boardSize = None\<rparr>,
      Connect ''sockA'', Connect ''sockB'', Connect ''sockC'',
      Join_room ''sockA'' ''TRE333'', Join_room ''sockB'' ''TRE333'', Join_room ''sockC'' ''TRE333'',
      Place_piece ''sockA'' ''TRE333'' 0 0, Place_piece ''sockB'' ''TRE333'' 0 1]"

definition trio_game :: server where
  "trio_game = run init_server trio_events"

definition trio_room :: room where
  "trio_room =
     \<lparr>players = \<lparr>black = Some ''sockA'', white = Some ''sockB'', third = Some ''sockC''\<rparr>,
      board = ([1] @ replicate 14 0) # ([2] @ replicate 14 0) # replicate 13 (replicate 15 0),
      turn = 3,
      settings = \<lparr>playerCount = 3, winCondition = 5, boardSize = 15\<rparr>\<rparr>"

text \<open>The bindings of the played game with a further socket bound as a spectator.\<close>

definition with_spectator :: "socket_id \<Rightarrow> socket_data" where
  "with_spectator =
     (sockets played_game)(''sockC'' := \<lparr>data_roomId = Some ''GAME42'', data_side = Some Spectator\<rparr>)"

definition tiny_settings :: settings where
  "tiny_settings = \<lparr>playerCount = 2, winCondition = 3, boardSize = 3\<rparr>"

definition tiny_start :: "event list" where
  "tiny_start =
     [Create_room (\<lambda>_. ''TTT333'')
        \<lparr>body_playerCount = Some 2, body_winCondition = Some 3, body_boardSize = Some 3\<rparr>,
      Connect ''sockA'', Connect ''sockB'',
      Join_room ''sockA'' ''TTT333'', Join_room ''sockB'' ''TTT333'']"

definition draw_events :: "event list" where
  "draw_events = tiny_start @
     [Place_piece ''sockA'' ''TTT333'' 0 0, Place_piece ''sockB'' ''TTT333'' 1 0,
      Place_piece ''sockA'' ''TTT333'' 2 0, Place_piece ''sockB'' ''TTT333'' 1 1,
      Place_piece ''sockA'' ''TTT333'' 0 1, Place_piece ''sockB'' ''TTT333'' 2 1,
      Place_piece ''sockA'' ''TTT333'' 1 2, Place_piece ''sockB'' ''TTT333'' 0 2]"

definition draw_game :: server where
  "draw_game = run init_server draw_events"

definition draw_room :: room where
  "draw_room =
     \<lparr>players = \<lparr>black = Some ''sockA'', white = Some ''sockB'', third = None\<rparr>,
      board = [[1, 2, 1], [1, 2, 2], [2, 1, 0]],
      turn = 1,
      settings = tiny_settings\<rparr>"


definition last_win_events :: "event list" where
  "last_win_events = tiny_start @
     [Place_piece ''sockA'' ''TTT333'' 0 0, Place_piece ''sockB'' ''TTT333'' 1 0,
      Place_piece ''sockA'' ''TTT333'' 2 0, Place_piece ''sockB'' ''TTT333'' 0 1,
      Place_piece ''sockA'' ''TTT333'' 1 1, Place_piece ''sockB'' ''TTT333'' 2 1,
      Place_piece ''sockA'' ''TTT333'' 1 2, Place_piece ''sockB'' ''TTT333'' 0 2]"

definition last_win_game :: server where
  "last_win_game = run init_server last_win_events"

definition last_win_room :: room where
  "last_win_room = draw_room\<lparr>board := [[1, 2, 1], [2, 1, 2], [2, 1, 0]]\<rparr>"

section \<open>Win detection\<close>

lemma count_forward_unfold:
  "count_forward g target dx dy nx ny count =
     (if matching g target nx ny
      then count_forward g target dx dy (nx + dx) (ny + dy) (count + 1)
      else Some count)"
  by (subst count_forward.simps) (simp add: matching_def)

lemma count_forward_steps:
  "(\<forall>j<m. matching g target (nx + int j * dx) (ny + int j * dy)) \<Longrightarrow>
   \<not> matching g target (nx + int m * dx) (ny + int m * dy) \<Longrightarrow>
   count_forward g target dx dy nx ny count = Some (count + int m)"
proof (induction m arbitrary: nx ny count)
  case 0
  then have "\<not> matching g target nx ny" by simp
  then show ?case
    by (simp add: count_forward_unfold [of g target dx dy nx ny count])
next
  case (Suc m)
  from Suc.prems(1) have here: "matching g target nx ny"
    by (metis mult_zero_left add.right_neutral of_nat_0 zero_less_Suc)
  have shift: "\<forall>j<m. matching g target ((nx + dx) + int j * dx) ((ny + dy) + int j * dy)"
  proof (intro allI impI)
    fix j assume "j < m"
    then have "matching g target (nx + int (Suc j) * dx) (ny + int (Suc j) * dy)"
      using Suc.prems(1) by (meson Suc_less_eq)
    then show "matching g target ((nx + dx) + int j * dx) ((ny + dy) + int j * dy)"
      by (simp add: algebra_simps)
  qed
  have stop: "\<not> matching g target ((nx + dx) + int m * dx) ((ny + dy) + int m * dy)"
    using Suc.prems(2) by (simp add: algebra_simps)
  have "count_forward g target dx dy nx ny count =
        count_forward g target dx dy (nx + dx) (ny + dy) (count + 1)"
    using here by (simp add: count_forward_unfold [of g target dx dy nx ny count])
  also have "\<dots> = Some (count + 1 + int m)"
    by (rule Suc.IH [OF shift stop])
  finally show ?case by simp
qed

lemma count_backward_unfold:
  "count_backward g target dx dy nx ny count =
     (if matching g target nx ny
      then count_backward g target dx dy (nx - dx) (ny - dy) (count + 1)
      else Some count)"
  by (subst count_backward.simps) (simp add: matching_def)

lemma count_backward_steps:
  "(\<forall>j<m. matching g target (nx - int j * dx) (ny - int j * dy)) \<Longrightarrow>
   \<not> matching g target (nx - int m * dx) (ny - int m * dy) \<Longrightarrow>
   count_backward g target dx dy nx ny count = Some (count + int m)"
proof (induction m arbitrary: nx ny count)
  case 0
  then have "\<not> matching g target nx ny" by simp
  then show ?case
    by (simp add: count_backward_unfold [of g target dx dy nx ny count])
next
  case (Suc m)
  from Suc.prems(1) have here: "matching g target nx ny"
    by (metis mult_zero_left diff_zero of_nat_0 zero_less_Suc)
  have shift: "\<forall>j<m. matching g target ((nx - dx) - int j * dx) ((ny - dy) - int j * dy)"
  proof (intro allI impI)
    fix j assume "j < m"
    then have "matching g target (nx - int (Suc j) * dx) (ny - int (Suc j) * dy)"
      using Suc.prems(1) by (meson Suc_less_eq)
    then show "matching g target ((nx - dx) - int j * dx) ((ny - dy) - int j * dy)"
      by (simp add: algebra_simps)
  qed
  have stop: "\<not> matching g target ((nx - dx) - int m * dx) ((ny - dy) - int m * dy)"
    using Suc.prems(2) by (simp add: algebra_simps)
  have "count_backward g target dx dy nx ny count =
        count_backward g target dx dy (nx - dx) (ny - dy) (count + 1)"
    using here by (simp add: count_backward_unfold [of g target dx dy nx ny count])
  also have "\<dots> = Some (count + 1 + int m)"
    by (rule Suc.IH [OF shift stop])
  finally show ?case by simp
qed

text \<open>Walking in a direction with a non-zero component leaves the g.\<close>

lemma leaves_board:
  assumes "dx \<noteq> 0 \<or> dy \<noteq> 0"
  shows "\<exists>j. \<not> matching g target (x + (int j + 1) * dx) (y + (int j + 1) * dy)"
proof -
  define L where "L = int (length g)"
  have "\<exists>j. \<not> inBounds (x + (int j + 1) * dx) (y + (int j + 1) * dy) L"
  proof -
    have one: "\<exists>j. \<not> (0 \<le> a + (int j + 1) * d \<and> a + (int j + 1) * d < L)" if "d \<noteq> 0" for a d :: int
    proof (cases "d > 0")
      case True
      define m where "m = int (nat (L - a)) + 1"
      have m: "m \<ge> L - a" "m \<ge> 0" by (simp_all add: m_def)
      have "m * 1 \<le> m * d"
        using True m(2) mult_left_mono [of 1 d m] by simp
      with m(1) have "L \<le> a + m * d" by simp
      then show ?thesis unfolding m_def by (intro exI [of _ "nat (L - a)"]) simp
    next
      case False
      with that have neg: "d \<le> - 1" by linarith
      define m where "m = int (nat a) + 1"
      have m: "m > a" "m \<ge> 0" by (simp_all add: m_def)
      have "m * d \<le> m * (- 1)"
        using neg m(2) mult_left_mono [of d "- 1" m] by simp
      with m(1) have "a + m * d < 0" by simp
      then show ?thesis unfolding m_def by (intro exI [of _ "nat a"]) simp
    qed
    from assms show ?thesis
    proof
      assume "dx \<noteq> 0"
      from one [OF this, of x] show ?thesis by (auto simp: inBounds_def)
    next
      assume "dy \<noteq> 0"
      from one [OF this, of y] show ?thesis by (auto simp: inBounds_def)
    qed
  qed
  then show ?thesis by (auto simp: matching_def L_def)
qed

lemma reach_stop:
  assumes "dx \<noteq> 0 \<or> dy \<noteq> 0"
  shows "\<not> matching g target (x + (int (reach g target x y dx dy) + 1) * dx)
        (y + (int (reach g target x y dx dy) + 1) * dy)"
proof -
  from leaves_board [OF assms, of g target x y] obtain j where
    "\<not> matching g target (x + (int j + 1) * dx) (y + (int j + 1) * dy)" ..
  then show ?thesis unfolding reach_def by (rule LeastI)
qed

lemma reach_before:
  "j < reach g target x y dx dy \<Longrightarrow>
   matching g target (x + (int j + 1) * dx) (y + (int j + 1) * dy)"
  unfolding reach_def using not_less_Least by blast

lemma count_forward_reach:
  assumes "dx \<noteq> 0 \<or> dy \<noteq> 0"
  shows "count_forward g target dx dy (x + dx) (y + dy) count =
         Some (count + int (reach g target x y dx dy))"
proof (rule count_forward_steps)
  show "\<forall>j<reach g target x y dx dy.
          matching g target (x + dx + int j * dx) (y + dy + int j * dy)"
    using reach_before [of _ g target x y dx dy] by (simp add: algebra_simps)
  show "\<not> matching g target (x + dx + int (reach g target x y dx dy) * dx)
          (y + dy + int (reach g target x y dx dy) * dy)"
    using reach_stop [OF assms, of g target x y] by (simp add: algebra_simps)
qed

lemma count_backward_reach:
  assumes "dx \<noteq> 0 \<or> dy \<noteq> 0"
  shows "count_backward g target dx dy (x - dx) (y - dy) count =
         Some (count + int (reach g target x y (- dx) (- dy)))"
proof (rule count_backward_steps)
  have nz: "- dx \<noteq> 0 \<or> - dy \<noteq> 0" using assms by simp
  show "\<forall>j<reach g target x y (- dx) (- dy).
          matching g target (x - dx - int j * dx) (y - dy - int j * dy)"
    using reach_before [of _ g target x y "- dx" "- dy"] by (simp add: algebra_simps)
  show "\<not> matching g target (x - dx - int (reach g target x y (- dx) (- dy)) * dx)
          (y - dy - int (reach g target x y (- dx) (- dy)) * dy)"
    using reach_stop [OF nz, of g target x y] by (simp add: algebra_simps)
qed


lemma run_through_matching:
  "cell g x y = Inr target \<Longrightarrow>
   run_through g x y (dx, dy) p n =
     (\<forall>k. - int n \<le> k \<and> k \<le> int p \<longrightarrow> matching g target (x + k * dx) (y + k * dy))"
  by (simp add: run_through_def matching_def)

lemma run_iff_reach:
  assumes nz: "dx \<noteq> 0 \<or> dy \<noteq> 0"
    and inb: "inBounds x y (int (length g))"
    and tgt: "cell g x y = Inr target"
  shows "(\<exists>p n. run_through g x y (dx, dy) p n \<and> w \<le> int p + int n + 1) \<longleftrightarrow>
         w \<le> 1 + int (reach g target x y dx dy) + int (reach g target x y (- dx) (- dy))"
proof -
  define a where "a = reach g target x y dx dy"
  define b where "b = reach g target x y (- dx) (- dy)"
  have nz': "- dx \<noteq> 0 \<or> - dy \<noteq> 0" using nz by simp
  have whole: "run_through g x y (dx, dy) a b"
    unfolding run_through_matching [OF tgt]
  proof (intro allI impI)
    fix k :: int
    assume k: "- int b \<le> k \<and> k \<le> int a"
    consider "k = 0" | "k > 0" | "k < 0" by linarith
    then show "matching g target (x + k * dx) (y + k * dy)"
    proof cases
      case 1
      then show ?thesis using inb tgt by (simp add: matching_def)
    next
      case 2
      then have "nat (k - 1) < a" using k by linarith
      from reach_before [OF this [unfolded a_def]] 2 show ?thesis by simp
    next
      case 3
      then have "nat (- k - 1) < b" using k by linarith
      from reach_before [OF this [unfolded b_def]] 3 show ?thesis by (simp add: algebra_simps)
    qed
  qed
  have bound: "p \<le> a \<and> n \<le> b" if r: "run_through g x y (dx, dy) p n" for p n
  proof (intro conjI)
    show "p \<le> a"
    proof (rule ccontr)
      assume "\<not> p \<le> a"
      then have "- int n \<le> int a + 1 \<and> int a + 1 \<le> int p" by linarith
      with r have "matching g target (x + (int a + 1) * dx) (y + (int a + 1) * dy)"
        unfolding run_through_matching [OF tgt] by blast
      with reach_stop [OF nz, of g target x y] show False by (simp add: a_def)
    qed
    show "n \<le> b"
    proof (rule ccontr)
      assume "\<not> n \<le> b"
      then have "- int n \<le> - (int b + 1) \<and> - (int b + 1) \<le> int p" by linarith
      with r have "matching g target (x + (- (int b + 1)) * dx) (y + (- (int b + 1)) * dy)"
        unfolding run_through_matching [OF tgt] by blast
      then have "matching g target (x + (int b + 1) * (- dx)) (y + (int b + 1) * (- dy))"
        by (simp add: algebra_simps)
      with reach_stop [OF nz', of g target x y] show False by (simp add: b_def)
    qed
  qed
  show ?thesis
  proof
    assume "\<exists>p n. run_through g x y (dx, dy) p n \<and> w \<le> int p + int n + 1"
    then obtain p n where r: "run_through g x y (dx, dy) p n" and w: "w \<le> int p + int n + 1"
      by blast
    from bound [OF r] w show "w \<le> 1 + int (reach g target x y dx dy) + int (reach g target x y (- dx) (- dy))"
      by (simp add: a_def b_def)
  next
    assume "w \<le> 1 + int (reach g target x y dx dy) + int (reach g target x y (- dx) (- dy))"
    then have "w \<le> int a + int b + 1" by (simp add: a_def b_def)
    with whole show "\<exists>p n. run_through g x y (dx, dy) p n \<and> w \<le> int p + int n + 1"
      by blast
  qed
qed

lemma check_dirs_reach:
  assumes "\<forall>d \<in> set ds. fst d \<noteq> 0 \<or> snd d \<noteq> 0"
  shows "check_dirs g target x y w ds =
         Some (\<exists>d \<in> set ds. w \<le> 1 + int (reach g target x y (fst d) (snd d))
                                  + int (reach g target x y (- fst d) (- snd d)))"
  using assms
proof (induction ds)
  case Nil
  then show ?case by simp
next
  case (Cons d ds)
  obtain dx dy where d: "d = (dx, dy)" by (cases d)
  from Cons.prems d have nz: "dx \<noteq> 0 \<or> dy \<noteq> 0" by simp
  from Cons.prems have rest: "\<forall>d \<in> set ds. fst d \<noteq> 0 \<or> snd d \<noteq> 0" by simp
  show ?case
    by (simp add: d count_forward_reach [OF nz] count_backward_reach [OF nz] Cons.IH [OF rest])
qed

lemma dirs_nonzero: "\<forall>d \<in> set dirs. fst d \<noteq> 0 \<or> snd d \<noteq> 0"
  by (simp add: dirs_def)

text \<open>The four lines of the specification are the four steps of the direction table.\<close>

lemma named_runs:
  "horizontal_run g x y p n = run_through g x y (1, 0) p n"
  "vertical_run g x y p n = run_through g x y (0, 1) p n"
  "diagonal_run g x y p n = run_through g x y (1, 1) p n"
  "antidiagonal_run g x y p n = run_through g x y (1, - 1) p n"
  by (simp_all add: horizontal_run_def vertical_run_def diagonal_run_def antidiagonal_run_def
      run_through_def same_as_def)

lemma winning_run_dirs:
  "winning_run g x y w \<longleftrightarrow>
     (\<exists>d \<in> set dirs. \<exists>p n. run_through g x y d p n \<and> w \<le> int p + int n + 1)"
  unfolding winning_run_def named_runs dirs_def by auto

lemma checkWin_run:
  assumes inb: "inBounds x y (int (length g))"
    and val: "cell g x y = Inr (Some v)"
    and nonempty: "v \<noteq> 0"
  shows "checkWin g x y w = Some (Inr (winning_run g x y w))"
proof -
  have "winning_run g x y w \<longleftrightarrow>
        (\<exists>d \<in> set dirs. w \<le> 1 + int (reach g (Some v) x y (fst d) (snd d))
                                  + int (reach g (Some v) x y (- fst d) (- snd d)))"
    unfolding winning_run_dirs
  proof (intro bex_cong refl)
    fix d assume "d \<in> set dirs"
    with dirs_nonzero have nz: "fst d \<noteq> 0 \<or> snd d \<noteq> 0" by blast
    from run_iff_reach [OF nz inb val, of w]
    show "(\<exists>p n. run_through g x y d p n \<and> w \<le> int p + int n + 1) \<longleftrightarrow>
          w \<le> 1 + int (reach g (Some v) x y (fst d) (snd d))
                          + int (reach g (Some v) x y (- fst d) (- snd d))"
      by simp
  qed
  then show ?thesis
    using val nonempty by (simp add: checkWin_def check_dirs_reach [OF dirs_nonzero])
qed

text \<open>
  Claim C1. For every grid, every in-bounds coordinate \<open>(x, y)\<close> whose cell is not
  empty and every win condition \<open>w\<close>, \<open>checkWin\<close> returns, and it returns true if and
  only if one of the four lines through \<open>(x, y)\<close> (the horizontal, the vertical, the
  diagonal, the anti-diagonal) holds a run of cells equal to the value at \<open>(x, y)\<close>,
  that cell counted once, of length at least \<open>w\<close>. The length is a threshold: a longer
  run wins as well.
\<close>

theorem checkWin_iff_winning_run:
  assumes "inBounds x y (int (length g))"
    and "cell g x y = Inr (Some v)"
    and "v \<noteq> 0"
  shows "checkWin g x y w = Some (Inr (winning_run g x y w))"
  using assms by (rule checkWin_run)

theorem checkWin_iff_winning_run_witness:
  "inBounds 1 0 (int (length demo_board)) \<and> cell demo_board 1 0 = Inr (Some 1) \<and> (1::int) \<noteq> 0 \<and>
   winning_run demo_board 1 0 3 \<and> horizontal_run demo_board 1 0 1 1 \<and>
   winning_run vertical_board 0 1 3 \<and> vertical_run vertical_board 0 1 1 1 \<and>
   winning_run diagonal_board 1 1 3 \<and> diagonal_run diagonal_board 1 1 1 1 \<and>
   winning_run antidiagonal_board 1 1 3 \<and> antidiagonal_run antidiagonal_board 1 1 1 1 \<and>
   \<not> winning_run demo_board 1 1 3 \<and> \<not> winning_run demo_board 1 0 4"
proof -
  have three: "k = - 1 \<or> k = 0 \<or> k = 1" if "- int 1 \<le> k \<and> k \<le> int 1" for k :: int
    using that by auto
  have a: "inBounds 1 0 (int (length demo_board))" by (simp add: inBounds_def demo_board_def)
  have b: "cell demo_board 1 0 = Inr (Some 1)" by (simp add: cell_def js_index_def demo_board_def)
  have c: "checkWin demo_board 1 0 3 = Some (Inr True)" by code_simp
  have c4: "checkWin demo_board 1 0 4 = Some (Inr False)" by code_simp
  have a': "inBounds 1 1 (int (length demo_board))" by (simp add: inBounds_def demo_board_def)
  have b': "cell demo_board 1 1 = Inr (Some 2)" by (simp add: cell_def js_index_def demo_board_def)
  have c': "checkWin demo_board 1 1 3 = Some (Inr False)" by code_simp
  have va: "inBounds 0 1 (int (length vertical_board))" by (simp add: inBounds_def vertical_board_def)
  have vb: "cell vertical_board 0 1 = Inr (Some 1)"
    by (simp add: cell_def js_index_def vertical_board_def)
  have vc: "checkWin vertical_board 0 1 3 = Some (Inr True)" by code_simp
  have da: "inBounds 1 1 (int (length diagonal_board))" by (simp add: inBounds_def diagonal_board_def)
  have db: "cell diagonal_board 1 1 = Inr (Some 1)"
    by (simp add: cell_def js_index_def diagonal_board_def)
  have dc: "checkWin diagonal_board 1 1 3 = Some (Inr True)" by code_simp
  have aa: "inBounds 1 1 (int (length antidiagonal_board))"
    by (simp add: inBounds_def antidiagonal_board_def)
  have ab: "cell antidiagonal_board 1 1 = Inr (Some 1)"
    by (simp add: cell_def js_index_def antidiagonal_board_def)
  have ac: "checkWin antidiagonal_board 1 1 3 = Some (Inr True)" by code_simp
  have h: "horizontal_run demo_board 1 0 1 1"
    unfolding horizontal_run_def
    by (intro allI impI, drule three)
       (auto simp: same_as_def inBounds_def cell_def js_index_def demo_board_def)
  have v: "vertical_run vertical_board 0 1 1 1"
    unfolding vertical_run_def
    by (intro allI impI, drule three)
       (auto simp: same_as_def inBounds_def cell_def js_index_def vertical_board_def)
  have d: "diagonal_run diagonal_board 1 1 1 1"
    unfolding diagonal_run_def
    by (intro allI impI, drule three)
       (auto simp: same_as_def inBounds_def cell_def js_index_def diagonal_board_def)
  have ad: "antidiagonal_run antidiagonal_board 1 1 1 1"
    unfolding antidiagonal_run_def
    by (intro allI impI, drule three)
       (auto simp: same_as_def inBounds_def cell_def js_index_def antidiagonal_board_def)
  from checkWin_iff_winning_run [OF a b, of 3] checkWin_iff_winning_run [OF a b, of 4]
    checkWin_iff_winning_run [OF a' b', of 3]
    checkWin_iff_winning_run [OF va vb, of 3] checkWin_iff_winning_run [OF da db, of 3]
    checkWin_iff_winning_run [OF aa ab, of 3]
    a b c c4 c' vc dc ac h v d ad
  show ?thesis by simp
qed

section \<open>Placing a piece\<close>

lemma cell_wf:
  assumes "wf_room room" and "inBounds x y (int (boardSize (settings room)))"
  shows "cell (board room) x y = Inr (Some (board room ! nat y ! nat x))"
proof -
  from assms have y: "0 \<le> y" "nat y < length (board room)" "y < int (length (board room))"
    and x: "0 \<le> x" "nat x < boardSize (settings room)" "x < int (boardSize (settings room))"
    by (auto simp: wf_room_def inBounds_def)
  from y assms(1) have "length (board room ! nat y) = boardSize (settings room)"
    by (simp add: wf_room_def)
  with x y show ?thesis
    by (simp add: cell_def js_index_def)
qed

lemma wf_set_cell:
  assumes "wf_room room" and "inBounds x y (int (boardSize (settings room)))"
  shows "wf_room (room\<lparr>board := set_cell (board room) x y v\<rparr>)"
proof -
  from assms have y: "nat y < length (board room)"
    by (auto simp: wf_room_def inBounds_def)
  have "length row = boardSize (settings room)"
    if "row \<in> set ((board room)[nat y := (board room ! nat y)[nat x := v]])" for row
  proof -
    from that have "row = (board room ! nat y)[nat x := v] \<or> row \<in> set (board room)"
      using set_update_subset_insert by fastforce
    with assms(1) y show ?thesis by (auto simp: wf_room_def)
  qed
  with assms(1) show ?thesis by (simp add: wf_room_def set_cell_def)
qed

lemma cell_set_cell_same:
  assumes "wf_room room" and "inBounds x y (int (boardSize (settings room)))"
  shows "cell (set_cell (board room) x y v) x y = Inr (Some v)"
proof -
  from assms have y: "0 \<le> y" "nat y < length (board room)" "y < int (length (board room))"
    and x: "0 \<le> x" "nat x < boardSize (settings room)" "x < int (boardSize (settings room))"
    by (auto simp: wf_room_def inBounds_def)
  from y assms(1) have "length (board room ! nat y) = boardSize (settings room)"
    by (simp add: wf_room_def)
  with x y show ?thesis
    by (simp add: cell_def js_index_def set_cell_def)
qed

lemma playerNum_nonzero: "playerNum sd \<noteq> 0"
  by (simp add: playerNum_def)

lemma checkWin_after_placement:
  assumes "wf_room room" and "inBounds x y (int (boardSize (settings room)))"
  shows "checkWin (set_cell (board room) x y (playerNum sd)) x y w =
         Some (Inr (winning_run (set_cell (board room) x y (playerNum sd)) x y w))"
proof (rule checkWin_run)
  from assms show "inBounds x y (int (length (set_cell (board room) x y (playerNum sd))))"
    by (simp add: wf_room_def set_cell_def)
  show "cell (set_cell (board room) x y (playerNum sd)) x y = Inr (Some (playerNum sd))"
    by (rule cell_set_cell_same [OF assms])
  show "playerNum sd \<noteq> 0" by (rule playerNum_nonzero)
qed

text \<open>The outcome of a legal placement: the new room and what is broadcast.\<close>

lemma place_piece_legal:
  assumes found: "map_of (rooms s) roomId = Some room"
    and wf: "wf_room room"
    and side: "data_side (sockets s sid) = Some sd" "sd \<noteq> Spectator"
    and legal: "legal_move room sd x y"
  shows "place_piece s sid roomId x y =
     Some (Inr
       (if winning_run (board (placed room sd x y)) x y (winCondition (settings room))
        then (s\<lparr>rooms := AList.update roomId (placed room sd x y) (rooms s)\<rparr>,
              [To_room roomId (Piece_placed x y sd), To_room roomId (Game_over (Some sd) None)])
        else if checkDraw (board (placed room sd x y))
        then (s\<lparr>rooms := AList.update roomId (placed room sd x y) (rooms s)\<rparr>,
              [To_room roomId (Piece_placed x y sd), To_room roomId (Game_over None (Some True))])
        else (s\<lparr>rooms := AList.update roomId
                  ((placed room sd x y)\<lparr>turn := getOppositeTurn (turn room) (playerCount (settings room))\<rparr>)
                  (rooms s)\<rparr>,
              [To_room roomId (Piece_placed x y sd),
               To_room roomId (Turn_changed (turn_name (getOppositeTurn (turn room) (playerCount (settings room))))),
               To_room roomId (Room_state (room_view
                  ((placed room sd x y)\<lparr>turn := getOppositeTurn (turn room) (playerCount (settings room))\<rparr>)))])))"
proof -
  from legal have inb: "inBounds x y (int (boardSize (settings room)))"
    and empty: "cell (board room) x y = Inr (Some 0)" and turn: "turn room = playerNum sd"
    by (simp_all add: legal_move_def)
  from side(2) have playing: "\<not> (sd \<noteq> Black \<and> sd \<noteq> White \<and> sd \<noteq> Green)"
    by (cases sd) simp_all
  note win = checkWin_after_placement [OF wf inb, of sd "winCondition (settings room)"]
  show ?thesis
    using playing
    by (simp add: place_piece_def found side(1) turn inb empty win placed_def Let_def)
qed

lemma place_piece_illegal:
  assumes found: "map_of (rooms s) roomId = Some room"
    and wf: "wf_room room"
    and side: "data_side (sockets s sid) = Some sd"
    and illegal: "\<not> legal_move room sd x y"
  shows "place_piece s sid roomId x y = Some (Inr (s, []))"
proof (cases "inBounds x y (int (boardSize (settings room)))")
  case True
  from cell_wf [OF wf True] show ?thesis
    using illegal True
    by (auto simp: place_piece_def found side legal_move_def)
next
  case False
  then show ?thesis
    by (simp add: place_piece_def found side)
qed

lemma place_piece_not_playing:
  assumes "data_side (sockets s sid) = None \<or> data_side (sockets s sid) = Some Spectator"
  shows "place_piece s sid roomId x y = Some (Inr (s, []))"
  using assms by (auto simp: place_piece_def split: option.splits)

lemma row_full_iff: "row_full cs \<longleftrightarrow> (\<forall>c \<in> set cs. c \<noteq> 0)"
  by (induction cs) auto

lemma checkDraw_iff: "checkDraw g \<longleftrightarrow> (\<forall>row \<in> set g. \<forall>c \<in> set row. c \<noteq> 0)"
  by (induction g) (auto simp: row_full_iff)



text \<open>A placement that emits something was legal.\<close>

lemma place_piece_emits_legal:
  assumes found: "map_of (rooms s) roomId = Some room"
    and wf: "wf_room room"
    and res: "place_piece s sid roomId x y = Some (Inr (s1, out1))"
    and emits: "out1 \<noteq> []"
  shows "\<exists>sd. data_side (sockets s sid) = Some sd \<and> sd \<noteq> Spectator \<and> legal_move room sd x y"
proof (cases "data_side (sockets s sid)")
  case None
  with place_piece_not_playing [of s sid roomId x y] res emits show ?thesis by simp
next
  case (Some sd)
  show ?thesis
  proof (cases "sd = Spectator")
    case True
    with Some place_piece_not_playing [of s sid roomId x y] res emits show ?thesis by simp
  next
    case False
    have "legal_move room sd x y"
    proof (rule ccontr)
      assume "\<not> legal_move room sd x y"
      from place_piece_illegal [OF found wf Some this] res emits show False by simp
    qed
    with Some False show ?thesis by simp
  qed
qed


subsection \<open>The example games\<close>

lemma run_reachable:
  "reachable s \<Longrightarrow> list_all possible es \<Longrightarrow> reachable (run s es)"
proof (induction es arbitrary: s)
  case Nil
  then show ?case by simp
next
  case (Cons e es)
  show ?case
  proof (cases "step s e")
    case None
    with Cons show ?thesis by simp
  next
    case (Some r)
    obtain s1 out where r: "r = (s1, out)" by (cases r)
    from Cons.prems Some r have "reachable s1" by (auto intro: reachable.after)
    with Cons.IH Cons.prems(2) Some r show ?thesis by simp
  qed
qed

lemma played_reachable: "reachable played_game"
  unfolding played_game_def
  by (rule run_reachable [OF reachable.start])
     (simp add: game_events_def nanoid_code_def alphabet_def)

lemma draw_reachable: "reachable draw_game"
  unfolding draw_game_def
  by (rule run_reachable [OF reachable.start])
     (simp add: draw_events_def tiny_start_def nanoid_code_def alphabet_def)

lemma last_win_reachable: "reachable last_win_game"
  unfolding last_win_game_def
  by (rule run_reachable [OF reachable.start])
     (simp add: last_win_events_def tiny_start_def nanoid_code_def alphabet_def)

lemma played_rooms: "rooms played_game = [(''GAME42'', game_room)]"
  by code_simp

lemma played_sides:
  "data_side (sockets played_game ''sockA'') = Some Black"
  "data_side (sockets played_game ''sockB'') = Some White"
  by code_simp+



lemma last_win_rooms: "rooms last_win_game = [(''TTT333'', last_win_room)]"
  by code_simp

lemma last_win_sides:
  "data_side (sockets last_win_game ''sockA'') = Some Black"
  "data_side (sockets last_win_game ''sockB'') = Some White"
  by code_simp+

lemma game_found: "map_of (rooms played_game) ''GAME42'' = Some game_room"
  by (simp add: played_rooms)

lemma game_wf: "wf_room game_room"
  by (simp add: wf_room_def game_room_def game_board_def)





subsection \<open>Legality of a placement\<close>

text \<open>
  Claim C2. For every room (with a board of the dimensions of its settings, as all
  rooms of the server are) and every \<open>place_piece\<close> event of a connection bound to a
  playing seat, the handler returns; the placement is made (the cell now holds the
  seat's number, the other fields of the room are kept, \<open>piece_placed\<close> is broadcast
  and the state differs) if and only if \<open>(x, y)\<close> is within the board, the cell is
  empty and the seat is the one to move. Otherwise the state is unchanged and nothing
  is emitted.
\<close>

theorem place_piece_iff_legal:
  assumes "map_of (rooms s) roomId = Some room"
    and "wf_room room"
    and "data_side (sockets s sid) = Some sd"
    and "sd \<noteq> Spectator"
  shows "\<exists>s' out. place_piece s sid roomId x y = Some (Inr (s', out)) \<and>
     (if legal_move room sd x y
      then (\<exists>room'. map_of (rooms s') roomId = Some room' \<and>
              board room' = set_cell (board room) x y (playerNum sd) \<and>
              cell (board room') x y = Inr (Some (playerNum sd)) \<and>
              players room' = players room \<and> settings room' = settings room) \<and>
           To_room roomId (Piece_placed x y sd) \<in> set out \<and> s' \<noteq> s
      else s' = s \<and> out = [])"
proof (cases "legal_move room sd x y")
  case False
  with place_piece_illegal [OF assms(1,2,3) False] show ?thesis by simp
next
  case True
  then have inb: "inBounds x y (int (boardSize (settings room)))"
    and empty: "cell (board room) x y = Inr (Some 0)"
    by (simp_all add: legal_move_def)
  note written = cell_set_cell_same [OF assms(2) inb, of "playerNum sd"]
  have differs: "s\<lparr>rooms := AList.update roomId r (rooms s)\<rparr> \<noteq> s"
    if "board r = set_cell (board room) x y (playerNum sd)" for r
  proof
    assume "s\<lparr>rooms := AList.update roomId r (rooms s)\<rparr> = s"
    then have "rooms (s\<lparr>rooms := AList.update roomId r (rooms s)\<rparr>) = rooms s" by simp
    then have "map_of (AList.update roomId r (rooms s)) roomId = map_of (rooms s) roomId" by simp
    with assms(1) have "r = room" by (simp add: update_conv')
    with that written empty playerNum_nonzero [of sd] show False by simp
  qed
  from place_piece_legal [OF assms True] True written differs
  show ?thesis
    by (simp add: update_conv' placed_def)
qed

theorem place_piece_iff_legal_witness:
  "map_of (rooms played_game) ''GAME42'' = Some game_room \<and> wf_room game_room \<and>
   data_side (sockets played_game ''sockA'') = Some Black \<and> Black \<noteq> Spectator \<and>
   \<not> legal_move game_room Black 0 0 \<and>
   place_piece played_game ''sockA'' ''GAME42'' 0 0 = Some (Inr (played_game, [])) \<and>
   legal_move game_room Black 4 0 \<and>
   place_piece played_game ''sockA'' ''GAME42'' 4 0 \<noteq> Some (Inr (played_game, []))"
proof -
  have sp: "Black \<noteq> Spectator" by simp
  have no: "\<not> legal_move game_room Black 0 0" by code_simp
  have yes: "legal_move game_room Black 4 0" by code_simp
  from place_piece_iff_legal [OF game_found game_wf played_sides(1) sp, of 0 0] no
  have r1: "place_piece played_game ''sockA'' ''GAME42'' 0 0 = Some (Inr (played_game, []))"
    by auto
  from place_piece_iff_legal [OF game_found game_wf played_sides(1) sp, of 4 0] yes
  have r2: "place_piece played_game ''sockA'' ''GAME42'' 4 0 \<noteq> Some (Inr (played_game, []))"
    by auto
  from game_found game_wf played_sides(1) no yes r1 r2 show ?thesis by simp
qed

subsection \<open>After the game has ended\<close>






subsection \<open>Draw detection\<close>

text \<open>
  Claim C4. \<open>checkDraw\<close> is true if and only if no cell of the grid is empty; and a
  legal placement that both wins and fills the last empty cell is reported as a win of
  the placing seat, not as a draw: the win check comes first.
\<close>

theorem checkDraw_full_and_win_first:
  assumes "map_of (rooms s) roomId = Some room"
    and "wf_room room"
    and "data_side (sockets s sid) = Some sd"
    and "sd \<noteq> Spectator"
    and "legal_move room sd x y"
    and wins: "checkWin (set_cell (board room) x y (playerNum sd)) x y (winCondition (settings room))
               = Some (Inr True)"
    and full: "checkDraw (set_cell (board room) x y (playerNum sd))"
  shows "(\<forall>g. checkDraw g \<longleftrightarrow> (\<forall>row \<in> set g. \<forall>c \<in> set row. c \<noteq> 0)) \<and>
         (\<exists>s'. place_piece s sid roomId x y =
            Some (Inr (s', [To_room roomId (Piece_placed x y sd),
                            To_room roomId (Game_over (Some sd) None)])))"
proof -
  from assms(5) have inb: "inBounds x y (int (boardSize (settings room)))"
    by (simp add: legal_move_def)
  from wins checkWin_after_placement [OF assms(2) inb, of sd "winCondition (settings room)"]
  have "winning_run (board (placed room sd x y)) x y (winCondition (settings room))"
    by (simp add: placed_def)
  with place_piece_legal [OF assms(1-5)] show ?thesis
    by (simp add: checkDraw_iff)
qed

theorem checkDraw_full_and_win_first_witness:
  "map_of (rooms last_win_game) ''TTT333'' = Some last_win_room \<and>
   wf_room last_win_room \<and>
   data_side (sockets last_win_game ''sockA'') = Some Black \<and>
   legal_move last_win_room Black 2 2 \<and>
   checkWin (set_cell (board last_win_room) 2 2 (playerNum Black)) 2 2
      (winCondition (settings last_win_room)) = Some (Inr True) \<and>
   checkDraw (set_cell (board last_win_room) 2 2 (playerNum Black)) \<and>
   (\<exists>s'. place_piece last_win_game ''sockA'' ''TTT333'' 2 2 =
      Some (Inr (s', [To_room ''TTT333'' (Piece_placed 2 2 Black),
                      To_room ''TTT333'' (Game_over (Some Black) None)]))) \<and>
   \<not> checkDraw (board last_win_room)"
proof -
  have found: "map_of (rooms last_win_game) ''TTT333'' = Some last_win_room"
    by (simp add: last_win_rooms)
  have wf: "wf_room last_win_room"
    by (simp add: wf_room_def last_win_room_def draw_room_def tiny_settings_def)
  have sp: "Black \<noteq> Spectator" by simp
  have legal: "legal_move last_win_room Black 2 2" by code_simp
  have wins: "checkWin (set_cell (board last_win_room) 2 2 (playerNum Black)) 2 2
      (winCondition (settings last_win_room)) = Some (Inr True)" by code_simp
  have full: "checkDraw (set_cell (board last_win_room) 2 2 (playerNum Black))" by code_simp
  have before: "\<not> checkDraw (board last_win_room)" by code_simp
  from checkDraw_full_and_win_first [OF found wf last_win_sides(1) sp legal wins full]
    found wf last_win_sides(1) legal wins full before
  show ?thesis by blast
qed

section \<open>What holds in every reachable state\<close>

lemma set_update_subset: "set (AList.update k v al) \<subseteq> insert (k, v) (set al)"
  by (induction al) auto

lemma set_delete_subset: "set (AList.delete k al) \<subseteq> set al"
  by (induction al) auto

lemma rooms_inv_update:
  assumes "rooms_inv rs" and "wf_room r" and "turn_ok r"
  shows "rooms_inv (AList.update k r rs)"
proof -
  from assms(1) have "distinct (map fst (AList.update k r rs))"
    by (simp add: rooms_inv_def distinct_update)
  moreover have "wf_room (snd kr) \<and> turn_ok (snd kr)" if "kr \<in> set (AList.update k r rs)" for kr
  proof -
    from that set_update_subset [of k r rs] have "kr = (k, r) \<or> kr \<in> set rs" by blast
    with assms show ?thesis unfolding rooms_inv_def by fastforce
  qed
  ultimately show ?thesis unfolding rooms_inv_def by blast
qed

lemma rooms_inv_delete:
  assumes "rooms_inv rs"
  shows "rooms_inv (AList.delete k rs)"
proof -
  from assms have "distinct (map fst (AList.delete k rs))"
    by (simp add: rooms_inv_def distinct_delete)
  moreover have "wf_room (snd kr) \<and> turn_ok (snd kr)" if "kr \<in> set (AList.delete k rs)" for kr
  proof -
    from that set_delete_subset [of k rs] have "kr \<in> set rs" by blast
    with assms show ?thesis unfolding rooms_inv_def by blast
  qed
  ultimately show ?thesis unfolding rooms_inv_def by blast
qed

lemma rooms_inv_lookup:
  assumes "rooms_inv rs" and "map_of rs k = Some r"
  shows "wf_room r" and "turn_ok r"
proof -
  from assms(2) have "(k, r) \<in> set rs" by (rule map_of_SomeD)
  with assms(1) have "wf_room (snd (k, r)) \<and> turn_ok (snd (k, r))"
    unfolding rooms_inv_def by blast
  then show "wf_room r" and "turn_ok r" by simp_all
qed

lemma create_room_inv:
  assumes "rooms_inv (rooms s)" and "create_room s nanoid b = Some (roomId, s')"
  shows "rooms_inv (rooms s')"
proof -
  from assms(2) obtain rid where
    s': "s' = s\<lparr>rooms := AList.update rid
                 \<lparr>players = \<lparr>black = None, white = None, third = None\<rparr>,
                  board = createEmptyBoard (case body_boardSize b of None \<Rightarrow> 15 | Some v \<Rightarrow> v),
                  turn = 1,
                  settings = \<lparr>playerCount = (case body_playerCount b of None \<Rightarrow> 2 | Some v \<Rightarrow> v),
                              winCondition = (case body_winCondition b of None \<Rightarrow> 5 | Some v \<Rightarrow> v),
                              boardSize = (case body_boardSize b of None \<Rightarrow> 15 | Some v \<Rightarrow> v)\<rparr>\<rparr>
                 (rooms s)\<rparr>"
    unfolding create_room_def Let_def by (cases "retry_nanoid nanoid (rooms s) 1 (nanoid 0)") auto
  show ?thesis
    unfolding s' using assms(1)
    by (simp add: rooms_inv_update wf_room_def createEmptyBoard_def turn_ok_def)
qed

lemma default_room_inv: "wf_room default_room" "turn_ok default_room"
  by (simp_all add: wf_room_def createEmptyBoard_def turn_ok_def default_room_def)

lemma assign_side_frame:
  assumes "assign_side room sid = (room', sd)"
  shows "board room' = board room" and "turn room' = turn room" and "settings room' = settings room"
  using assms by (auto simp: assign_side_def split: if_splits)

lemma room_inv_frame:
  assumes "board r' = board r" and "turn r' = turn r" and "settings r' = settings r"
  shows "wf_room r' = wf_room r" and "turn_ok r' = turn_ok r"
  using assms by (simp_all add: wf_room_def turn_ok_def)

lemma join_room_inv:
  assumes inv: "rooms_inv (rooms s)" and res: "join_room s sid roomId = (s', out)"
  shows "rooms_inv (rooms s')"
proof (cases "roomId = []")
  case True
  with res inv show ?thesis by (simp add: join_room_def)
next
  case False
  define rs where "rs = (if \<not> has (rooms s) roomId
                         then AList.update roomId default_room (rooms s) else rooms s)"
  have rs: "rooms_inv rs"
    using inv by (simp add: rs_def rooms_inv_update default_room_inv)
  show ?thesis
  proof (cases "map_of rs roomId")
    case None
    with res False inv show ?thesis by (simp add: join_room_def rs_def [symmetric])
  next
    case (Some room)
    obtain room' sd where as: "assign_side room sid = (room', sd)" by (cases "assign_side room sid")
    from rooms_inv_lookup [OF rs Some] room_inv_frame [OF assign_side_frame [OF as]]
    have "wf_room room'" "turn_ok room'" by simp_all
    with rs have "rooms_inv (AList.update roomId room' rs)" by (simp add: rooms_inv_update)
    moreover from res False Some as have "rooms s' = AList.update roomId room' rs"
      by (auto simp: join_room_def rs_def [symmetric])
    ultimately show ?thesis by simp
  qed
qed

lemma getOppositeTurn_ok:
  assumes "turn_ok r"
  shows "turn_ok (r\<lparr>board := g, turn := getOppositeTurn (turn r) (playerCount (settings r))\<rparr>)"
  using assms by (simp add: turn_ok_def getOppositeTurn_def)

text \<open>A placement either leaves the state as it is or writes one room back.\<close>

lemma place_piece_rooms:
  assumes found: "map_of (rooms s) roomId = Some room"
    and wf: "wf_room room"
    and res: "place_piece s sid roomId x y = Some (Inr (s', out))"
  shows "s' = s \<or>
         (\<exists>sd. data_side (sockets s sid) = Some sd \<and> sd \<noteq> Spectator \<and> legal_move room sd x y \<and>
            (rooms s' = AList.update roomId (placed room sd x y) (rooms s) \<or>
             rooms s' = AList.update roomId
               ((placed room sd x y)\<lparr>turn := getOppositeTurn (turn room) (playerCount (settings room))\<rparr>)
               (rooms s)))"
proof (cases "out = []")
  case False
  from place_piece_emits_legal [OF found wf res False] obtain sd where
    sd: "data_side (sockets s sid) = Some sd" "sd \<noteq> Spectator" and legal: "legal_move room sd x y"
    by blast
  from place_piece_legal [OF found wf sd legal] res
  have "rooms s' = AList.update roomId (placed room sd x y) (rooms s) \<or>
        rooms s' = AList.update roomId
          ((placed room sd x y)\<lparr>turn := getOppositeTurn (turn room) (playerCount (settings room))\<rparr>)
          (rooms s)"
    by (cases "winning_run (board (placed room sd x y)) x y (winCondition (settings room))";
        cases "checkDraw (board (placed room sd x y))") auto
  with sd legal show ?thesis by blast
next
  case True
  have "s' = s"
  proof (cases "\<exists>sd. data_side (sockets s sid) = Some sd \<and> sd \<noteq> Spectator \<and> legal_move room sd x y")
    case True
    then obtain sd where sd: "data_side (sockets s sid) = Some sd" "sd \<noteq> Spectator"
      and legal: "legal_move room sd x y" by blast
    from place_piece_legal [OF found wf sd legal] res \<open>out = []\<close> show ?thesis
      by (cases "winning_run (board (placed room sd x y)) x y (winCondition (settings room))";
          cases "checkDraw (board (placed room sd x y))") auto
  next
    case False
    have "place_piece s sid roomId x y = Some (Inr (s, []))"
    proof (cases "data_side (sockets s sid)")
      case None
      then show ?thesis by (simp add: place_piece_not_playing)
    next
      case (Some sd)
      show ?thesis
      proof (cases "sd = Spectator")
        case True
        with Some show ?thesis by (simp add: place_piece_not_playing)
      next
        case no: False
        with False Some have "\<not> legal_move room sd x y" by simp
        from place_piece_illegal [OF found wf Some this] show ?thesis .
      qed
    qed
    with res show ?thesis by simp
  qed
  then show ?thesis by simp
qed

lemma place_piece_inv:
  assumes inv: "rooms_inv (rooms s)" and res: "place_piece s sid roomId x y = Some (Inr (s', out))"
  shows "rooms_inv (rooms s')"
proof (cases "map_of (rooms s) roomId")
  case None
  with res inv show ?thesis by (simp add: place_piece_def)
next
  case (Some room)
  note wf = rooms_inv_lookup(1) [OF inv Some] and ok = rooms_inv_lookup(2) [OF inv Some]
  from place_piece_rooms [OF Some wf res] show ?thesis
  proof (elim disjE exE conjE)
    assume "s' = s"
    with inv show ?thesis by simp
  next
    fix sd
    assume legal: "legal_move room sd x y"
    then have inb: "inBounds x y (int (boardSize (settings room)))"
      by (simp add: legal_move_def)
    have wf1: "wf_room (placed room sd x y)"
      unfolding placed_def by (rule wf_set_cell [OF wf inb])
    have ok1: "turn_ok (placed room sd x y)"
      using ok by (simp add: placed_def turn_ok_def)
    {
      assume "rooms s' = AList.update roomId (placed room sd x y) (rooms s)"
      with inv wf1 ok1 show ?thesis by (simp add: rooms_inv_update)
    next
      let ?r2 = "(placed room sd x y)\<lparr>turn := getOppositeTurn (turn room) (playerCount (settings room))\<rparr>"
      assume r2: "rooms s' = AList.update roomId ?r2 (rooms s)"
      have wf2: "wf_room ?r2" using wf1 by (simp add: wf_room_def)
      have ok2: "turn_ok ?r2"
        using getOppositeTurn_ok [OF ok, of "set_cell (board room) x y (playerNum sd)"]
        by (simp add: placed_def)
      from inv wf2 ok2 r2 show ?thesis by (simp add: rooms_inv_update)
    }
  qed
qed

lemma reset_game_inv:
  assumes inv: "rooms_inv (rooms s)" and res: "reset_game s sid roomId = (s', out)"
  shows "rooms_inv (rooms s')"
proof (cases "map_of (rooms s) roomId")
  case None
  with res inv show ?thesis by (simp add: reset_game_def)
next
  case (Some room)
  define room' where "room' = room\<lparr>board := createEmptyBoard (boardSize (settings room)), turn := 1\<rparr>"
  have "wf_room room'" "turn_ok room'"
    by (simp_all add: room'_def wf_room_def createEmptyBoard_def turn_ok_def)
  moreover from res Some have "rooms s' = AList.update roomId room' (rooms s)"
    by (auto simp: reset_game_def room'_def Let_def)
  ultimately show ?thesis using inv by (simp add: rooms_inv_update)
qed

lemma disconnect_rooms:
  assumes "disconnect s sid = (s', out)"
  shows "rooms s' = rooms s \<or>
         (\<exists>roomId room. map_of (rooms s) roomId = Some room \<and>
            (rooms s' = AList.update roomId (room\<lparr>players := free_seats (players room) sid\<rparr>) (rooms s) \<or>
             rooms s' = AList.delete roomId
                (AList.update roomId (room\<lparr>players := free_seats (players room) sid\<rparr>) (rooms s))))"
proof (cases "data_roomId (sockets s sid)")
  case None
  with assms show ?thesis by (auto simp: disconnect_def Let_def)
next
  case (Some roomId)
  show ?thesis
  proof (cases "map_of (rooms s) roomId")
    case None
    with Some assms show ?thesis by (auto simp: disconnect_def Let_def)
  next
    case found: (Some room)
    show ?thesis
    proof (cases "adapter s roomId - {sid} = {}")
      case True
      with assms Some found have "rooms s' = AList.delete roomId
          (AList.update roomId (room\<lparr>players := free_seats (players room) sid\<rparr>) (rooms s))"
        by (auto simp: disconnect_def Let_def)
      with found show ?thesis by blast
    next
      case False
      with assms Some found have "rooms s' =
          AList.update roomId (room\<lparr>players := free_seats (players room) sid\<rparr>) (rooms s)"
        by (auto simp: disconnect_def Let_def)
      with found show ?thesis by blast
    qed
  qed
qed

lemma disconnect_inv:
  assumes inv: "rooms_inv (rooms s)" and res: "disconnect s sid = (s', out)"
  shows "rooms_inv (rooms s')"
  using disconnect_rooms [OF res]
proof (elim disjE exE conjE)
  assume "rooms s' = rooms s"
  with inv show ?thesis by simp
next
  fix roomId room
  assume found: "map_of (rooms s) roomId = Some room"
  let ?r = "room\<lparr>players := free_seats (players room) sid\<rparr>"
  from rooms_inv_lookup [OF inv found] have "wf_room ?r" "turn_ok ?r"
    by (simp_all add: wf_room_def turn_ok_def)
  with inv have up: "rooms_inv (AList.update roomId ?r (rooms s))"
    by (simp add: rooms_inv_update)
  {
    assume "rooms s' = AList.update roomId ?r (rooms s)"
    with up show ?thesis by simp
  next
    assume "rooms s' = AList.delete roomId (AList.update roomId ?r (rooms s))"
    with rooms_inv_delete [OF up, of roomId] show ?thesis by simp
  }
qed

lemma step_inv:
  assumes inv: "rooms_inv (rooms s)" and st: "step s e = Some (s', out)"
  shows "rooms_inv (rooms s')"
proof (cases e)
  case (Create_room nanoid b)
  with st obtain roomId where "create_room s nanoid b = Some (roomId, s')" by auto
  from create_room_inv [OF inv this] show ?thesis .
next
  case (Connect sid)
  with st inv show ?thesis by (auto simp: connect_def split: if_splits)
next
  case (Join_room sid roomId)
  with st have "join_room s sid roomId = (s', out)" by (simp split: if_splits)
  from join_room_inv [OF inv this] show ?thesis .
next
  case (Get_room_state sid roomId)
  with st have "s' = s" by (auto simp: get_room_state_def split: if_splits option.splits)
  with inv show ?thesis by simp
next
  case (Place_piece sid roomId x y)
  with st have "place_piece s sid roomId x y = Some (Inr (s', out))"
    by (auto split: if_splits option.splits sum.splits)
  from place_piece_inv [OF inv this] show ?thesis .
next
  case (Reset_game sid roomId)
  with st have "reset_game s sid roomId = (s', out)" by (simp split: if_splits)
  from reset_game_inv [OF inv this] show ?thesis .
next
  case (Disconnect sid)
  with st have "disconnect s sid = (s', out)" by (simp split: if_splits)
  from disconnect_inv [OF inv this] show ?thesis .
qed

lemma reachable_inv: "reachable s \<Longrightarrow> rooms_inv (rooms s)"
proof (induction rule: reachable.induct)
  case start
  show ?case by (simp add: init_server_def rooms_inv_def)
next
  case (after s e s' out)
  from step_inv [OF after.IH after.hyps(3)] show ?case .
qed

text \<open>So the rooms the handlers meet are well formed, and a placement never throws.\<close>

lemma reachable_room_wf:
  "reachable s \<Longrightarrow> map_of (rooms s) roomId = Some room \<Longrightarrow> wf_room room"
  by (rule rooms_inv_lookup(1) [OF reachable_inv])

lemma reachable_place_piece_returns:
  assumes "reachable s"
  shows "\<exists>s' out. place_piece s sid roomId x y = Some (Inr (s', out))"
proof (cases "map_of (rooms s) roomId")
  case None
  then show ?thesis by (simp add: place_piece_def)
next
  case (Some room)
  note wf = reachable_room_wf [OF assms Some]
  show ?thesis
  proof (cases "data_side (sockets s sid)")
    case None
    then show ?thesis by (simp add: place_piece_not_playing)
  next
    case side: (Some sd)
    show ?thesis
    proof (cases "sd = Spectator")
      case True
      with side show ?thesis by (simp add: place_piece_not_playing)
    next
      case False
      show ?thesis
      proof (cases "legal_move room sd x y")
        case True
        from place_piece_legal [OF Some wf side False True] show ?thesis by simp
      next
        case False
        from place_piece_illegal [OF Some wf side False] show ?thesis by simp
      qed
    qed
  qed
qed

subsection \<open>Turn rotation\<close>

lemma trio_reachable: "reachable trio_game"
  unfolding trio_game_def
  by (rule run_reachable [OF reachable.start])
     (simp add: trio_events_def nanoid_code_def alphabet_def)

lemma trio_rooms: "rooms trio_game = [(''TRE333'', trio_room)]"
  by code_simp

lemma trio_sides:
  "data_side (sockets trio_game ''sockA'') = Some Black"
  "data_side (sockets trio_game ''sockB'') = Some White"
  "data_side (sockets trio_game ''sockC'') = Some Green"
  by code_simp+

lemma quiet_placement:
  "place_piece played_game ''sockA'' ''GAME42'' 7 7 =
     Some (Inr (played_game\<lparr>rooms := [(''GAME42'',
                    game_room\<lparr>board := set_cell game_board 7 7 1, turn := 2\<rparr>)]\<rparr>,
                [To_room ''GAME42'' (Piece_placed 7 7 Black),
                 To_room ''GAME42'' (Turn_changed White),
                 To_room ''GAME42'' (Room_state
                   \<lparr>state_black = True, state_white = True, state_third = None, state_turn = 2,
                    state_settings = Some \<lparr>playerCount = 2, winCondition = 5, boardSize = 15\<rparr>\<rparr>)]))"
proof -
  have c: "cell game_board 7 7 = Inr (Some 0)" by code_simp
  have w: "checkWin (set_cell game_board 7 7 1) 7 7 5 = Some (Inr False)" by code_simp
  have d: "\<not> checkDraw (set_cell game_board 7 7 1)" by code_simp
  show ?thesis
    by (simp add: place_piece_def played_rooms played_sides game_room_def playerNum_def
        inBounds_def c w d getOppositeTurn_def turn_name_def room_view_def)
qed

lemma third_placement:
  "place_piece trio_game ''sockC'' ''TRE333'' 0 2 =
     Some (Inr (trio_game\<lparr>rooms := [(''TRE333'',
                    trio_room\<lparr>board := set_cell (board trio_room) 0 2 3, turn := 1\<rparr>)]\<rparr>,
                [To_room ''TRE333'' (Piece_placed 0 2 Green),
                 To_room ''TRE333'' (Turn_changed Black),
                 To_room ''TRE333'' (Room_state
                   \<lparr>state_black = True, state_white = True, state_third = Some True, state_turn = 1,
                    state_settings = Some \<lparr>playerCount = 3, winCondition = 5, boardSize = 15\<rparr>\<rparr>)]))"
proof -
  have c: "cell (board trio_room) 0 2 = Inr (Some 0)" by code_simp
  have w: "checkWin (set_cell (board trio_room) 0 2 3) 0 2 5 = Some (Inr False)" by code_simp
  have d: "\<not> checkDraw (set_cell (board trio_room) 0 2 3)" by code_simp
  have st: "settings trio_room = \<lparr>playerCount = 3, winCondition = 5, boardSize = 15\<rparr>"
    "turn trio_room = 3" "players trio_room = \<lparr>black = Some ''sockA'', white = Some ''sockB'', third = Some ''sockC''\<rparr>"
    by (simp_all add: trio_room_def)
  show ?thesis
    by (simp add: place_piece_def trio_rooms trio_sides st playerNum_def
        inBounds_def c w d getOppositeTurn_def turn_name_def room_view_def)
qed

text \<open>The turn after a placement that does not end the game.\<close>

lemma place_piece_rotates:
  assumes found: "map_of (rooms s) roomId = Some room"
    and wf: "wf_room room"
    and res: "place_piece s sid roomId x y = Some (Inr (s', out))"
    and emits: "out \<noteq> []"
    and going: "\<forall>w d. To_room roomId (Game_over w d) \<notin> set out"
    and found': "map_of (rooms s') roomId = Some room'"
  shows "turn room' = getOppositeTurn (turn room) (playerCount (settings room))"
    and "settings room' = settings room"
proof -
  from place_piece_emits_legal [OF found wf res emits] obtain sd where
    sd: "data_side (sockets s sid) = Some sd" "sd \<noteq> Spectator" and legal: "legal_move room sd x y"
    by blast
  let ?r2 = "(placed room sd x y)\<lparr>turn := getOppositeTurn (turn room) (playerCount (settings room))\<rparr>"
  from place_piece_legal [OF found wf sd legal] res going
  have "rooms s' = AList.update roomId ?r2 (rooms s)"
    by (cases "winning_run (board (placed room sd x y)) x y (winCondition (settings room))";
        cases "checkDraw (board (placed room sd x y))") auto
  with found' have "room' = ?r2" by (simp add: update_conv')
  then show "turn room' = getOppositeTurn (turn room) (playerCount (settings room))"
    and "settings room' = settings room"
    by (simp_all add: placed_def)
qed

text \<open>
  Claim C5. In every reachable state, a room of two players has the turn on
  black or white, never on the third seat; and a successful placement that does not
  end the game leaves the settings alone and passes the turn black to white to black
  in a room of two, black to white to third to black in a room of three.
\<close>

theorem turn_rotation:
  assumes "reachable s" and "map_of (rooms s) roomId = Some room"
  shows "(playerCount (settings room) = 2 \<longrightarrow> turn room = 1 \<or> turn room = 2) \<and>
         (\<forall>sid x y s' out room'.
            place_piece s sid roomId x y = Some (Inr (s', out)) \<and> out \<noteq> [] \<and>
            (\<forall>w d. To_room roomId (Game_over w d) \<notin> set out) \<and>
            map_of (rooms s') roomId = Some room' \<longrightarrow>
              settings room' = settings room \<and>
              (playerCount (settings room) = 2 \<longrightarrow>
                 (turn room = 1 \<longrightarrow> turn room' = 2) \<and> (turn room = 2 \<longrightarrow> turn room' = 1)) \<and>
              (playerCount (settings room) = 3 \<longrightarrow>
                 (turn room = 1 \<longrightarrow> turn room' = 2) \<and> (turn room = 2 \<longrightarrow> turn room' = 3) \<and>
                 (turn room = 3 \<longrightarrow> turn room' = 1)))"
proof -
  note inv = reachable_inv [OF assms(1)]
  note wf = rooms_inv_lookup(1) [OF inv assms(2)] and ok = rooms_inv_lookup(2) [OF inv assms(2)]
  from ok have two: "playerCount (settings room) = 2 \<longrightarrow> turn room = 1 \<or> turn room = 2"
    by (auto simp: turn_ok_def)
  have rot: "settings room' = settings room \<and>
              (playerCount (settings room) = 2 \<longrightarrow>
                 (turn room = 1 \<longrightarrow> turn room' = 2) \<and> (turn room = 2 \<longrightarrow> turn room' = 1)) \<and>
              (playerCount (settings room) = 3 \<longrightarrow>
                 (turn room = 1 \<longrightarrow> turn room' = 2) \<and> (turn room = 2 \<longrightarrow> turn room' = 3) \<and>
                 (turn room = 3 \<longrightarrow> turn room' = 1))"
    if "place_piece s sid roomId x y = Some (Inr (s', out))" "out \<noteq> []"
      "\<forall>w d. To_room roomId (Game_over w d) \<notin> set out" "map_of (rooms s') roomId = Some room'"
    for sid x y s' out room'
    using place_piece_rotates [OF assms(2) wf that]
    by (simp add: getOppositeTurn_def)
  from two rot show ?thesis by blast
qed

theorem turn_rotation_witness:
  "reachable played_game \<and> map_of (rooms played_game) ''GAME42'' = Some game_room \<and>
   playerCount (settings game_room) = 2 \<and> turn game_room = 1 \<and>
   turn (game_room\<lparr>board := set_cell game_board 7 7 1, turn := 2\<rparr>) = 2 \<and>
   reachable trio_game \<and> map_of (rooms trio_game) ''TRE333'' = Some trio_room \<and>
   playerCount (settings trio_room) = 3 \<and> turn trio_room = 3 \<and>
   turn (trio_room\<lparr>board := set_cell (board trio_room) 0 2 3, turn := 1\<rparr>) = 1"
proof -
  have g: "playerCount (settings game_room) = 2" "turn game_room = 1"
    by (simp_all add: game_room_def)
  have t: "playerCount (settings trio_room) = 3" "turn trio_room = 3"
    by (simp_all add: trio_room_def)
  have tfound: "map_of (rooms trio_game) ''TRE333'' = Some trio_room"
    by (simp add: trio_rooms)
  from turn_rotation [OF played_reachable game_found] quiet_placement g
  have r1: "turn (game_room\<lparr>board := set_cell game_board 7 7 1, turn := 2\<rparr>) = 2"
    by simp
  from turn_rotation [OF trio_reachable tfound] third_placement t
  have r2: "turn (trio_room\<lparr>board := set_cell (board trio_room) 0 2 3, turn := 1\<rparr>) = 1"
    by simp
  from played_reachable game_found g r1 trio_reachable tfound t r2 show ?thesis by simp
qed

subsection \<open>Room codes\<close>

lemma has_iff_key: "has rs roomId \<longleftrightarrow> roomId \<in> set (map fst rs)"
  by (simp add: has_def map_of_eq_None_iff)

lemma retry_nanoid_fresh:
  "retry_nanoid nanoid rs i c = Some roomId \<Longrightarrow> \<not> has rs roomId"
  by (erule retry_nanoid.raw_induct
        [where P = "\<lambda>nanoid rs i c roomId. \<not> has rs roomId", rotated])
     (auto split: if_splits)

lemma retry_nanoid_drawn:
  "retry_nanoid nanoid rs i c = Some roomId \<Longrightarrow> roomId = c \<or> roomId \<in> range nanoid"
  by (erule retry_nanoid.raw_induct
        [where P = "\<lambda>nanoid rs i c roomId. roomId = c \<or> roomId \<in> range nanoid", rotated])
     (fastforce split: if_splits)

lemma create_room_code:
  assumes "create_room s nanoid b = Some (roomId, s')"
  shows "\<not> has (rooms s) roomId" and "roomId \<in> range nanoid"
    and "\<exists>r. rooms s' = AList.update roomId r (rooms s)"
proof -
  from assms have r: "retry_nanoid nanoid (rooms s) 1 (nanoid 0) = Some roomId"
    unfolding create_room_def Let_def
    by (cases "retry_nanoid nanoid (rooms s) 1 (nanoid 0)") auto
  from retry_nanoid_fresh [OF r] show "\<not> has (rooms s) roomId" .
  from retry_nanoid_drawn [OF r] show "roomId \<in> range nanoid" by auto
  from assms r show "\<exists>r. rooms s' = AList.update roomId r (rooms s)"
    unfolding create_room_def Let_def by auto
qed

text \<open>
  Claim C9. In every reachable state, whatever rooms were created, joined into
  being and deleted, the codes of the live rooms are pairwise distinct; and a creation
  that returns issues a code that was not live, adds exactly that code, and keeps the
  codes distinct. The code is one of the draws of \<open>nanoid\<close>, hence over its alphabet.
\<close>

theorem live_room_codes_distinct:
  assumes "reachable s"
  shows "distinct (map fst (rooms s)) \<and>
         (\<forall>nanoid b roomId s'. create_room s nanoid b = Some (roomId, s') \<longrightarrow>
            roomId \<notin> set (map fst (rooms s)) \<and>
            map fst (rooms s') = map fst (rooms s) @ [roomId] \<and>
            distinct (map fst (rooms s')) \<and>
            ((\<forall>i. nanoid_code (nanoid i)) \<longrightarrow> nanoid_code roomId))"
proof -
  from reachable_inv [OF assms] have d: "distinct (map fst (rooms s))"
    by (simp add: rooms_inv_def)
  have c: "roomId \<notin> set (map fst (rooms s)) \<and>
            map fst (rooms s') = map fst (rooms s) @ [roomId] \<and>
            distinct (map fst (rooms s')) \<and>
            ((\<forall>i. nanoid_code (nanoid i)) \<longrightarrow> nanoid_code roomId)"
    if cr: "create_room s nanoid b = Some (roomId, s')" for nanoid b roomId s'
  proof -
    from create_room_code(1) [OF cr] have fresh: "roomId \<notin> set (map fst (rooms s))"
      by (simp add: has_iff_key)
    from create_room_code(3) [OF cr] obtain r where "rooms s' = AList.update roomId r (rooms s)" ..
    with fresh have keys: "map fst (rooms s') = map fst (rooms s) @ [roomId]"
      by (simp add: update_keys)
    with d fresh have "distinct (map fst (rooms s'))" by simp
    moreover from create_room_code(2) [OF cr]
    have "(\<forall>i. nanoid_code (nanoid i)) \<longrightarrow> nanoid_code roomId" by auto
    ultimately show ?thesis using fresh keys by simp
  qed
  from d c show ?thesis by blast
qed

theorem live_room_codes_distinct_witness:
  "reachable played_game \<and> distinct (map fst (rooms played_game)) \<and>
   map_option fst (create_room played_game retry_draws empty_body) = Some ''GAME43'' \<and>
   ''GAME43'' \<notin> set (map fst (rooms played_game)) \<and>
   map_option (\<lambda>r. map fst (rooms (snd r))) (create_room played_game retry_draws empty_body)
     = Some [''GAME42'', ''GAME43'']"
proof -
  have cr: "map_option fst (create_room played_game retry_draws empty_body) = Some ''GAME43''"
    by code_simp
  then obtain s' where s': "create_room played_game retry_draws empty_body = Some (''GAME43'', s')"
    by auto
  from live_room_codes_distinct [OF played_reachable] s'
  have "distinct (map fst (rooms played_game))"
    and "''GAME43'' \<notin> set (map fst (rooms played_game))"
    and "map fst (rooms s') = map fst (rooms played_game) @ [''GAME43'']"
    by blast+
  with played_reachable cr s' show ?thesis by (simp add: played_rooms)
qed

section \<open>Joining a room\<close>

lemma joined_room_found:
  "roomId \<noteq> [] \<Longrightarrow>
   map_of (if \<not> has (rooms s) roomId
           then AList.update roomId default_room (rooms s) else rooms s) roomId
     = Some (joined_room s roomId)"
  by (auto simp: joined_room_def has_def update_conv')

lemma assign_side_first_free:
  assumes "assign_side room sid = (room', sd)"
  shows "sd = first_free_seat (playerCount (settings room)) (players room)"
    and "sd \<noteq> Spectator \<longrightarrow> occupant (players room') sd = Some sid"
    and "\<forall>seat. seat \<noteq> sd \<longrightarrow> occupant (players room') seat = occupant (players room) seat"
    and "\<forall>seat c. occupant (players room) seat = Some c \<longrightarrow> occupant (players room') seat = Some c"
proof -
  show "sd = first_free_seat (playerCount (settings room)) (players room)"
    using assms
    by (auto simp: assign_side_def first_free_seat_def playing_seats_def split: if_splits)
  show "sd \<noteq> Spectator \<longrightarrow> occupant (players room') sd = Some sid"
    using assms by (auto simp: assign_side_def split: if_splits)
  show "\<forall>seat. seat \<noteq> sd \<longrightarrow> occupant (players room') seat = occupant (players room) seat"
  proof (intro allI impI)
    fix seat assume "seat \<noteq> sd"
    with assms show "occupant (players room') seat = occupant (players room) seat"
      by (cases seat) (auto simp: assign_side_def split: if_splits)
  qed
  show "\<forall>seat c. occupant (players room) seat = Some c \<longrightarrow> occupant (players room') seat = Some c"
  proof (intro allI impI)
    fix seat c assume "occupant (players room) seat = Some c"
    with assms show "occupant (players room') seat = Some c"
      by (cases seat) (auto simp: assign_side_def split: if_splits)
  qed
qed

text \<open>
  Claim C6. A join binds the connection to the first playing seat nobody holds,
  in the order black, white, third (the third only when the room has three players),
  and to \<open>Spectator\<close> when all are held; it tells the joiner so, and no seat
  that was held changes its holder.
\<close>

theorem join_assigns_first_free_seat:
  assumes "roomId \<noteq> []" and "join_room s sid roomId = (s', out)"
  shows "\<exists>room'. map_of (rooms s') roomId = Some room' \<and>
     (let room = joined_room s roomId;
          sd = first_free_seat (playerCount (settings room)) (players room)
      in data_side (sockets s' sid) = Some sd \<and>
         out = [To_socket sid (Joined roomId sd (turn room) (board room) (settings room)),
                To_room roomId (Room_state (room_view room'))] \<and>
         (sd \<noteq> Spectator \<longrightarrow> occupant (players room') sd = Some sid) \<and>
         (\<forall>seat. seat \<noteq> sd \<longrightarrow> occupant (players room') seat = occupant (players room) seat) \<and>
         (\<forall>seat c. occupant (players room) seat = Some c \<longrightarrow> occupant (players room') seat = Some c))"
proof -
  define room where "room = joined_room s roomId"
  obtain room' sd where as: "assign_side room sid = (room', sd)" by (cases "assign_side room sid")
  note facts = assign_side_first_free [OF as] and frame = assign_side_frame [OF as]
  from assms joined_room_found [OF assms(1), of s] as
  have s': "map_of (rooms s') roomId = Some room'"
    and side: "data_side (sockets s' sid) = Some sd"
    and out: "out = [To_socket sid (Joined roomId sd (turn room') (board room') (settings room')),
                     To_room roomId (Room_state (room_view room'))]"
    by (auto simp: join_room_def Let_def room_def update_conv')
  from s' side out facts frame show ?thesis
    unfolding Let_def room_def [symmetric] by auto
qed

theorem join_assigns_first_free_seat_witness:
  "''GAME42'' \<noteq> [] \<and>
   first_free_seat (playerCount (settings (joined_room played_game ''GAME42'')))
      (players (joined_room played_game ''GAME42'')) = Spectator \<and>
   data_side (sockets (fst (join_room played_game ''sockC'' ''GAME42'')) ''sockC'') = Some Spectator \<and>
   first_free_seat (playerCount (settings (joined_room played_game ''GAME43'')))
      (players (joined_room played_game ''GAME43'')) = Black \<and>
   data_side (sockets (fst (join_room played_game ''sockC'' ''GAME43'')) ''sockC'') = Some Black"
proof -
  have ne: "''GAME42'' \<noteq> []" "''GAME43'' \<noteq> []" by simp_all
  have j1: "join_room played_game ''sockC'' ''GAME42'' =
      (fst (join_room played_game ''sockC'' ''GAME42''), snd (join_room played_game ''sockC'' ''GAME42''))"
    by simp
  have j2: "join_room played_game ''sockC'' ''GAME43'' =
      (fst (join_room played_game ''sockC'' ''GAME43''), snd (join_room played_game ''sockC'' ''GAME43''))"
    by simp
  have f1: "first_free_seat (playerCount (settings (joined_room played_game ''GAME42'')))
      (players (joined_room played_game ''GAME42'')) = Spectator" by code_simp
  have f2: "first_free_seat (playerCount (settings (joined_room played_game ''GAME43'')))
      (players (joined_room played_game ''GAME43'')) = Black" by code_simp
  from join_assigns_first_free_seat [OF ne(1) j1] f1
  have r1: "data_side (sockets (fst (join_room played_game ''sockC'' ''GAME42'')) ''sockC'') = Some Spectator"
    by (auto simp: Let_def)
  from join_assigns_first_free_seat [OF ne(2) j2] f2
  have r2: "data_side (sockets (fst (join_room played_game ''sockC'' ''GAME43'')) ''sockC'') = Some Black"
    by (auto simp: Let_def)
  from ne f1 f2 r1 r2 show ?thesis by simp
qed

section \<open>Resetting a room and asking for its state\<close>

lemma reset_game_found:
  assumes "map_of (rooms s) roomId = Some room"
  shows "reset_game s sid roomId =
     (s\<lparr>rooms := AList.update roomId
           (room\<lparr>board := createEmptyBoard (boardSize (settings room)), turn := 1\<rparr>) (rooms s)\<rparr>,
      [To_room roomId (Reset_done (createEmptyBoard (boardSize (settings room))) Black),
       To_room roomId (Room_state (room_view
           (room\<lparr>board := createEmptyBoard (boardSize (settings room)), turn := 1\<rparr>)))])"
  using assms by (simp add: reset_game_def Let_def)

text \<open>
  Claim C7. For every existing room, a reset puts an all-empty board of
  \<open>boardSize\<close> by \<open>boardSize\<close> cells in place and gives the turn to black; the
  settings and the seats of the room, the other rooms and the connections are as
  before.
\<close>

theorem reset_game_frame:
  assumes "map_of (rooms s) roomId = Some room" and "reset_game s sid roomId = (s', out)"
  shows "\<exists>room'. map_of (rooms s') roomId = Some room' \<and>
     board room' = replicate (boardSize (settings room)) (replicate (boardSize (settings room)) 0) \<and>
     turn room' = 1 \<and> settings room' = settings room \<and> players room' = players room \<and>
     (\<forall>other. other \<noteq> roomId \<longrightarrow> map_of (rooms s') other = map_of (rooms s) other) \<and>
     sockets s' = sockets s \<and> connected s' = connected s \<and> adapter s' = adapter s"
  using assms(2) unfolding reset_game_found [OF assms(1)]
  by (auto simp: update_conv' createEmptyBoard_def)

theorem reset_game_frame_witness:
  "map_of (rooms won_game) ''GAME42'' = Some won_room \<and>
   map_option board (map_of (rooms (fst (reset_game won_game ''sockB'' ''GAME42''))) ''GAME42'')
     = Some (replicate 15 (replicate 15 0)) \<and>
   map_option turn (map_of (rooms (fst (reset_game won_game ''sockB'' ''GAME42''))) ''GAME42'')
     = Some 1 \<and>
   map_option settings (map_of (rooms (fst (reset_game won_game ''sockB'' ''GAME42''))) ''GAME42'')
     = Some \<lparr>playerCount = 2, winCondition = 5, boardSize = 15\<rparr> \<and>
   map_option players (map_of (rooms (fst (reset_game won_game ''sockB'' ''GAME42''))) ''GAME42'')
     = Some \<lparr>black = Some ''sockA'', white = Some ''sockB'', third = None\<rparr>"
proof -
  have found: "map_of (rooms won_game) ''GAME42'' = Some won_room"
    by (simp add: won_game_def)
  have res: "reset_game won_game ''sockB'' ''GAME42'' =
      (fst (reset_game won_game ''sockB'' ''GAME42''), snd (reset_game won_game ''sockB'' ''GAME42''))"
    by simp
  have st: "settings won_room = \<lparr>playerCount = 2, winCondition = 5, boardSize = 15\<rparr>"
    "players won_room = \<lparr>black = Some ''sockA'', white = Some ''sockB'', third = None\<rparr>"
    by (simp_all add: won_room_def game_room_def)
  from reset_game_frame [OF found res] found st show ?thesis by auto
qed

text \<open>
  Claim C10. A reset of a live room is carried out whoever sends it and whatever
  the senders are bound to (a spectator, a player, a connection that never joined):
  the outcome does not depend on the sender or on any binding. The one thing checked
  is that the room exists; for an unknown code nothing happens.
\<close>

theorem reset_game_any_sender:
  "(map_of (rooms s) roomId = None \<longrightarrow> reset_game s sid roomId = (s, [])) \<and>
   (\<forall>room. map_of (rooms s) roomId = Some room \<longrightarrow>
      (\<forall>d sender. \<exists>room'.
         map_of (rooms (fst (reset_game (s\<lparr>sockets := d\<rparr>) sender roomId))) roomId = Some room' \<and>
         board room' = createEmptyBoard (boardSize (settings room)) \<and> turn room' = 1 \<and>
         rooms (fst (reset_game (s\<lparr>sockets := d\<rparr>) sender roomId))
           = rooms (fst (reset_game s sid roomId)) \<and>
         snd (reset_game (s\<lparr>sockets := d\<rparr>) sender roomId)
           = [To_room roomId (Reset_done (board room') Black),
              To_room roomId (Room_state (room_view room'))]))"
proof (intro conjI impI allI)
  assume "map_of (rooms s) roomId = None"
  then show "reset_game s sid roomId = (s, [])" by (simp add: reset_game_def)
next
  fix room d sender
  assume found: "map_of (rooms s) roomId = Some room"
  then have found': "map_of (rooms (s\<lparr>sockets := d\<rparr>)) roomId = Some room" by simp
  show "\<exists>room'.
         map_of (rooms (fst (reset_game (s\<lparr>sockets := d\<rparr>) sender roomId))) roomId = Some room' \<and>
         board room' = createEmptyBoard (boardSize (settings room)) \<and> turn room' = 1 \<and>
         rooms (fst (reset_game (s\<lparr>sockets := d\<rparr>) sender roomId))
           = rooms (fst (reset_game s sid roomId)) \<and>
         snd (reset_game (s\<lparr>sockets := d\<rparr>) sender roomId)
           = [To_room roomId (Reset_done (board room') Black),
              To_room roomId (Room_state (room_view room'))]"
    unfolding reset_game_found [OF found] reset_game_found [OF found']
    by (simp add: update_conv')
qed

theorem reset_game_any_sender_witness:
  "map_of (rooms played_game) ''GAME42'' = Some game_room \<and>
   data_side (with_spectator ''sockC'') = Some Spectator \<and>
   map_option turn (map_of (rooms (fst (reset_game (played_game\<lparr>sockets := with_spectator\<rparr>)
       ''sockC'' ''GAME42''))) ''GAME42'') = Some 1 \<and>
   map_option board (map_of (rooms (fst (reset_game (played_game\<lparr>sockets := with_spectator\<rparr>)
       ''sockC'' ''GAME42''))) ''GAME42'') = Some (createEmptyBoard 15) \<and>
   data_side (sockets played_game ''sockZ'') = None \<and>
   map_option turn (map_of (rooms (fst (reset_game (played_game\<lparr>sockets := sockets played_game\<rparr>)
       ''sockZ'' ''GAME42''))) ''GAME42'') = Some 1 \<and>
   map_option board (map_of (rooms (fst (reset_game (played_game\<lparr>sockets := sockets played_game\<rparr>)
       ''sockZ'' ''GAME42''))) ''GAME42'') = Some (createEmptyBoard 15)"
proof -
  have spec: "data_side (with_spectator ''sockC'') = Some Spectator"
    by (simp add: with_spectator_def)
  have never: "data_side (sockets played_game ''sockZ'') = None" by code_simp
  have bs: "boardSize (settings game_room) = 15" by (simp add: game_room_def)
  from reset_game_any_sender [of played_game "''GAME42''" "''sockA''"] game_found
  have all: "\<forall>d sender. \<exists>room'.
         map_of (rooms (fst (reset_game (played_game\<lparr>sockets := d\<rparr>) sender ''GAME42''))) ''GAME42''
            = Some room' \<and>
         board room' = createEmptyBoard (boardSize (settings game_room)) \<and> turn room' = 1"
    by blast
  from all [rule_format, of with_spectator "''sockC''"] bs
  have r1: "map_option turn (map_of (rooms (fst (reset_game (played_game\<lparr>sockets := with_spectator\<rparr>)
       ''sockC'' ''GAME42''))) ''GAME42'') = Some 1"
    "map_option board (map_of (rooms (fst (reset_game (played_game\<lparr>sockets := with_spectator\<rparr>)
       ''sockC'' ''GAME42''))) ''GAME42'') = Some (createEmptyBoard 15)"
    by auto
  from all [rule_format, of "sockets played_game" "''sockZ''"] bs
  have r2: "map_option turn (map_of (rooms (fst (reset_game (played_game\<lparr>sockets := sockets played_game\<rparr>)
       ''sockZ'' ''GAME42''))) ''GAME42'') = Some 1"
    "map_option board (map_of (rooms (fst (reset_game (played_game\<lparr>sockets := sockets played_game\<rparr>)
       ''sockZ'' ''GAME42''))) ''GAME42'') = Some (createEmptyBoard 15)"
    by auto
  from game_found spec never r1 r2 show ?thesis by blast
qed

text \<open>
  Claim C8. The claim is that a state refresh sends the requester the view the
  other handlers broadcast: every configured seat, the turn and the settings. The
  handler answers the requester only, but its payload has neither the third seat nor
  the settings. In the game of three, with all three seats held, the answer is
  compared with the view of the room.
\<close>

theorem get_room_state_omits_third_and_settings:
  "get_room_state trio_game ''sockA'' ''TRE333'' =
     (trio_game, [To_socket ''sockA'' (Room_state
        \<lparr>state_black = True, state_white = True, state_third = None, state_turn = 3,
         state_settings = None\<rparr>)]) \<and>
   room_view trio_room =
        \<lparr>state_black = True, state_white = True, state_third = Some True, state_turn = 3,
         state_settings = Some \<lparr>playerCount = 3, winCondition = 5, boardSize = 15\<rparr>\<rparr>"
  by (simp add: get_room_state_def trio_rooms room_view_def trio_room_def)

end
